theory Spec2Isabelle
  imports Complex_Main
begin

section \<open>The speech service state\<close>

text \<open>
  The module-level object \<open>speechState\<close> of the Google TTS service. Timestamps are the
  numbers returned by \<open>Date.now()\<close> (milliseconds), an optional field is an
  \<open>option\<close>. The caller's callbacks are opaque functions: the model keeps an identity
  for each, so that an invocation can be attributed to the function that was called.
  The playing object is an audio element or a speech-synthesis utterance, named by its
  index in the world (see below). A log entry is the time and the reason (the source
  formats the time with the locale).
\<close>

datatype playing = AudioRef nat | UtteranceRef nat

record SpeechState =
  isPlaying :: bool
  currentUtterance :: "playing option"
  lineNumberCallback :: "nat option"
  onFinishCallback :: "nat option"
  quotaExceededUntil :: "int option"
  fallbackMode :: bool
  fallbackReasonLog :: "(int \<times> string) list"
  consecutiveErrors :: nat
  lastErrorTime :: "int option"
  hasError :: "bool option"

definition speechState0 :: SpeechState where
  "speechState0 = \<lparr> isPlaying = False, currentUtterance = None, lineNumberCallback = None,
     onFinishCallback = None, quotaExceededUntil = None, fallbackMode = False,
     fallbackReasonLog = [], consecutiveErrors = 0, lastErrorTime = None, hasError = None \<rparr>"

text \<open>JavaScript truthiness of an optional number: \<open>undefined\<close> and \<open>0\<close> are falsy.\<close>

fun truthyNum :: "int option \<Rightarrow> bool" where
  "truthyNum None = False"
| "truthyNum (Some t) = (t \<noteq> 0)"

text \<open>\<open>shouldUseFallbackDirectly()\<close>, with the value of \<open>Date.now()\<close> as \<open>now\<close>.\<close>

definition shouldUseFallbackDirectly :: "int \<Rightarrow> SpeechState \<Rightarrow> bool" where
  "shouldUseFallbackDirectly now s =
     (if fallbackMode s then True
      else if truthyNum (quotaExceededUntil s) \<and> the (quotaExceededUntil s) > now then True
      else if consecutiveErrors s \<ge> 3 then True
      else if truthyNum (lastErrorTime s) \<and> now - the (lastErrorTime s) < 30 * 1000 then True
      else False)"

text \<open>\<open>recordFailure(reason)\<close>: the log keeps its last ten entries.\<close>

definition recordFailure :: "int \<Rightarrow> string \<Rightarrow> SpeechState \<Rightarrow> SpeechState" where
  "recordFailure now reason s =
     (let s1 = s\<lparr> consecutiveErrors := consecutiveErrors s + 1, lastErrorTime := Some now,
                   fallbackReasonLog := fallbackReasonLog s @ [(now, reason)] \<rparr>;
          s2 = (if length (fallbackReasonLog s1) > 10
                then s1\<lparr> fallbackReasonLog := tl (fallbackReasonLog s1) \<rparr> else s1)
      in if consecutiveErrors s2 \<ge> 5 then s2\<lparr> fallbackMode := True \<rparr> else s2)"

text \<open>
  \<open>resetErrorState()\<close>. The age of the last error is computed after \<open>lastErrorTime\<close>
  has been cleared, as in the source; \<open>None\<close> stands for \<open>Infinity\<close>.
\<close>

definition resetErrorState :: "int \<Rightarrow> SpeechState \<Rightarrow> SpeechState" where
  "resetErrorState now s =
     (let s1 = s\<lparr> consecutiveErrors := 0, lastErrorTime := None \<rparr>
      in if fallbackMode s1 \<and> consecutiveErrors s1 = 0
         then (let lastErrorAge = (if truthyNum (lastErrorTime s1)
                                   then Some (now - the (lastErrorTime s1)) else None)
               in if (case lastErrorAge of None \<Rightarrow> True | Some a \<Rightarrow> a > 5 * 60 * 1000)
                  then s1\<lparr> fallbackMode := False \<rparr> else s1)
         else s1)"

section \<open>Strings and regular expressions of the host language\<close>

text \<open>
  A string of the program is a list of code units; the model covers the code units
  below 256 (Latin-1). \<open>\s\<close> and \<open>trim()\<close> share one notion of white space: tab,
  line feed, vertical tab, form feed, carriage return, space and the no-break space.
\<close>

definition isSpace :: "char \<Rightarrow> bool" where
  "isSpace c = (c \<in> set [CHR 0x09, CHR 0x0A, CHR 0x0B, CHR 0x0C, CHR 0x0D, CHR '' '', CHR 0xA0])"

definition isDigit :: "char \<Rightarrow> bool" where
  "isDigit c = (c \<in> set ''0123456789'')"

definition isWordChar :: "char \<Rightarrow> bool" where
  "isWordChar c = (c \<in> set ''abcdefghijklmnopqrstuvwxyzABCDEFGHIJKLMNOPQRSTUVWXYZ0123456789_'')"

definition trim :: "string \<Rightarrow> string" where
  "trim s = rev (dropWhile isSpace (rev (dropWhile isSpace s)))"

fun startsWith :: "string \<Rightarrow> string \<Rightarrow> bool" where
  "startsWith s [] = True"
| "startsWith [] (c # cs) = False"
| "startsWith (x # xs) (c # cs) = (x = c \<and> startsWith xs cs)"

text \<open>\<open>s.indexOf(t)\<close>: the first index where \<open>t\<close> starts, \<open>None\<close> for \<open>-1\<close>.\<close>

fun indexOfFrom :: "nat \<Rightarrow> string \<Rightarrow> string \<Rightarrow> nat option" where
  "indexOfFrom i [] t = (if t = [] then Some i else None)"
| "indexOfFrom i (x # xs) t = (if startsWith (x # xs) t then Some i else indexOfFrom (Suc i) xs t)"

definition indexOf :: "string \<Rightarrow> string \<Rightarrow> nat option" where
  "indexOf s t = indexOfFrom 0 s t"

definition includesStr :: "string \<Rightarrow> string \<Rightarrow> bool" where
  "includesStr s t = (indexOf s t \<noteq> None)"

text \<open>\<open>s.substring(a, b)\<close> for \<open>0 \<le> a\<close> (the larger bound is cut at the length).\<close>

definition substring :: "string \<Rightarrow> nat \<Rightarrow> nat \<Rightarrow> string" where
  "substring s a b = (if a \<le> b then take (b - a) (drop a s) else take (a - b) (drop b s))"

text \<open>\<open>s.split('\n')\<close> and friends: splitting at a separator character.\<close>

fun splitOn :: "char \<Rightarrow> string \<Rightarrow> string list" where
  "splitOn c [] = [[]]"
| "splitOn c (x # xs) =
     (if x = c then [] # splitOn c xs
      else (case splitOn c xs of [] \<Rightarrow> [[x]] | l # ls \<Rightarrow> (x # l) # ls))"

text \<open>
  \<open>parseInt(s, 10)\<close>: leading white space, an optional sign, then the longest run of
  digits; \<open>None\<close> is \<open>NaN\<close>. The number is exact (no rounding to a double).
\<close>

definition digitVal :: "char \<Rightarrow> nat" where
  "digitVal c = of_char c - 48"

definition digitsVal :: "string \<Rightarrow> nat" where
  "digitsVal ds = foldl (\<lambda>n c. 10 * n + digitVal c) 0 ds"

definition parseInt :: "string \<Rightarrow> int option" where
  "parseInt s =
     (let t = dropWhile isSpace s;
          (neg, u) = (case t of c # cs \<Rightarrow> if c = CHR ''-'' then (True, cs)
                                            else if c = CHR ''+'' then (False, cs) else (False, t)
                      | [] \<Rightarrow> (False, []));
          ds = takeWhile isDigit u
      in if ds = [] then None
         else Some (if neg then - int (digitsVal ds) else int (digitsVal ds)))"

text \<open>
  The regular expressions of the program, as syntax trees. Repetition is only ever
  applied to a character class in this program (\<open>\s*\<close>, \<open>\d+\<close>, \<open>[^>]*\<close>), so
  \<open>RRep P n\<close> is the greedy repetition of the class \<open>P\<close>, at least \<open>n\<close> times.
\<close>

datatype rx =
    REps
  | RLit char
  | RCls "char \<Rightarrow> bool"
  | RRep "char \<Rightarrow> bool" nat
  | RSeq rx rx
  | RAlt rx rx
  | ROpt rx
  | RGrp nat rx
  | RBol
  | REol
  | RWordB

type_synonym caps = "(nat \<times> string) list"

text \<open>
  A matcher state: the character before the current position (\<open>None\<close> at the start of
  the input), the rest of the input, and the capture groups set so far.
\<close>

type_synonym mstate = "char option \<times> string \<times> caps"

text \<open>All the ways a class can be repeated from here, the shortest first.\<close>

fun repSplits :: "(char \<Rightarrow> bool) \<Rightarrow> char option \<Rightarrow> string \<Rightarrow> (char option \<times> string) list" where
  "repSplits P p [] = [(p, [])]"
| "repSplits P p (x # xs) = (p, x # xs) # (if P x then repSplits P (Some x) xs else [])"

definition wordBefore :: "char option \<Rightarrow> bool" where
  "wordBefore p = (case p of None \<Rightarrow> False | Some c \<Rightarrow> isWordChar c)"

definition wordAfter :: "string \<Rightarrow> bool" where
  "wordAfter s = (case s of [] \<Rightarrow> False | c # _ \<Rightarrow> isWordChar c)"

text \<open>
  The backtracking matcher: every way the expression matches at the current position, in
  the order the engine tries them (greedy repetition: the longest first; alternatives:
  left to right). The match the engine reports is the first of the list.
\<close>

fun rmatch :: "rx \<Rightarrow> mstate \<Rightarrow> mstate list" where
  "rmatch REps st = [st]"
| "rmatch (RLit c) (p, s, k) = (case s of [] \<Rightarrow> [] | x # xs \<Rightarrow> if x = c then [(Some x, xs, k)] else [])"
| "rmatch (RCls P) (p, s, k) = (case s of [] \<Rightarrow> [] | x # xs \<Rightarrow> if P x then [(Some x, xs, k)] else [])"
| "rmatch (RRep P n) (p, s, k) = map (\<lambda>(p', s'). (p', s', k)) (rev (drop n (repSplits P p s)))"
| "rmatch (RSeq a b) st = concat (map (rmatch b) (rmatch a st))"
| "rmatch (RAlt a b) st = rmatch a st @ rmatch b st"
| "rmatch (ROpt a) st = rmatch a st @ [st]"
| "rmatch (RGrp i a) (p, s, k) =
     map (\<lambda>(p', s', k'). (p', s', (i, take (length s - length s') s) # k')) (rmatch a (p, s, k))"
| "rmatch RBol (p, s, k) = (if p = None then [(p, s, k)] else [])"
| "rmatch REol (p, s, k) = (if s = [] then [(p, s, k)] else [])"
| "rmatch RWordB (p, s, k) = (if wordBefore p \<noteq> wordAfter s then [(p, s, k)] else [])"

text \<open>
  The first match at the current position that consumes input. None of the patterns of
  this program matches the empty string, so an empty match is not told apart from no
  match (a loop over \<open>exec\<close> would not advance on one).
\<close>

definition matchHere :: "rx \<Rightarrow> char option \<Rightarrow> string \<Rightarrow> mstate option" where
  "matchHere r p s =
     (case rmatch r (p, s, []) of
        [] \<Rightarrow> None
      | (p', s', k) # _ \<Rightarrow> if length s' < length s then Some (p', s', k) else None)"

text \<open>
  \<open>while ((match = r.exec(text)) !== null)\<close> for a global expression: the matches from
  left to right, each the matched text with its groups; the search resumes where the
  last match ended.
\<close>

function execAll :: "rx \<Rightarrow> char option \<Rightarrow> string \<Rightarrow> (string \<times> caps) list" where
  "execAll r p s =
     (case matchHere r p s of
        Some (p', s', k) \<Rightarrow> (take (length s - length s') s, k) # execAll r p' s'
      | None \<Rightarrow> (case s of [] \<Rightarrow> [] | x # xs \<Rightarrow> execAll r (Some x) xs))"
  by pat_completeness auto
termination
  by (relation "measure (\<lambda>(r, p, s). length s)")
     (auto simp: matchHere_def split: list.splits if_splits)

text \<open>\<open>s.replace(r, f)\<close> for a global expression; \<open>f\<close> gets the match and its groups.\<close>

function replaceAll :: "rx \<Rightarrow> (string \<Rightarrow> caps \<Rightarrow> string) \<Rightarrow> char option \<Rightarrow> string \<Rightarrow> string" where
  "replaceAll r f p s =
     (case matchHere r p s of
        Some (p', s', k) \<Rightarrow> f (take (length s - length s') s) k @ replaceAll r f p' s'
      | None \<Rightarrow> (case s of [] \<Rightarrow> [] | x # xs \<Rightarrow> x # replaceAll r f (Some x) xs))"
  by pat_completeness auto
termination
  by (relation "measure (\<lambda>(r, f, p, s). length s)")
     (auto simp: matchHere_def split: list.splits if_splits)

declare execAll.simps [simp del] replaceAll.simps [simp del]

definition replace :: "rx \<Rightarrow> string \<Rightarrow> string \<Rightarrow> string" where
  "replace r t s = replaceAll r (\<lambda>_ _. t) None s"

text \<open>\<open>s.split(r)\<close> for an expression without groups; \<open>acc\<close> is the piece being read.\<close>

function splitGo :: "rx \<Rightarrow> char option \<Rightarrow> string \<Rightarrow> string \<Rightarrow> string list" where
  "splitGo r p s acc =
     (case matchHere r p s of
        Some (p', s', k) \<Rightarrow> rev acc # splitGo r p' s' []
      | None \<Rightarrow> (case s of [] \<Rightarrow> [rev acc] | x # xs \<Rightarrow> splitGo r (Some x) xs (x # acc)))"
  by pat_completeness auto
termination
  by (relation "measure (\<lambda>(r, p, s, acc). length s)")
     (auto simp: matchHere_def split: list.splits if_splits)

declare splitGo.simps [simp del]

definition splitRx :: "rx \<Rightarrow> string \<Rightarrow> string list" where
  "splitRx r s = splitGo r None s []"

text \<open>\<open>r.test(s)\<close> for an expression that is not global: a match anywhere.\<close>

fun testFrom :: "rx \<Rightarrow> char option \<Rightarrow> string \<Rightarrow> bool" where
  "testFrom r p [] = (rmatch r (p, [], []) \<noteq> [])"
| "testFrom r p (x # xs) = (if rmatch r (p, x # xs, []) \<noteq> [] then True else testFrom r (Some x) xs)"

definition test :: "rx \<Rightarrow> string \<Rightarrow> bool" where
  "test r s = testFrom r None s"

text \<open>Building blocks.\<close>

fun lits :: "string \<Rightarrow> rx" where
  "lits [] = REps"
| "lits [c] = RLit c"
| "lits (c # cs) = RSeq (RLit c) (lits cs)"

fun seqs :: "rx list \<Rightarrow> rx" where
  "seqs [] = REps"
| "seqs [r] = r"
| "seqs (r # rs) = RSeq r (seqs rs)"

fun alts :: "rx list \<Rightarrow> rx" where
  "alts [] = REps"
| "alts [r] = r"
| "alts (r # rs) = RAlt r (alts rs)"

definition ws0 :: rx where
  "ws0 = RRep isSpace 0"

definition digits1 :: rx where
  "digits1 = RRep isDigit 1"

definition group :: "caps \<Rightarrow> nat \<Rightarrow> string option" where
  "group k i = map_of k i"

section \<open>Extraction of line references\<close>

record LineMarker =
  markerText :: string
  lineNumber :: int

text \<open>A tag with attributes, such as \<open>/<break[^>]*>/\<close>.\<close>

definition tagRx :: "string \<Rightarrow> rx" where
  "tagRx name = seqs [lits name, RRep (\<lambda>c. c \<noteq> CHR ''>'') 0, RLit CHR ''>'']"

text \<open>The chain of \<open>replace\<close> calls that opens \<open>extractLineReferences\<close>.\<close>

definition cleanSSML :: "string \<Rightarrow> string" where
  "cleanSSML text0 =
     (replace (lits ''</say-as>'') [] \<circ>
      replace (tagRx ''<say-as'') [] \<circ>
      replace (lits ''</sub>'') [] \<circ>
      replace (tagRx ''<sub'') [] \<circ>
      replace (lits ''</phoneme>'') [] \<circ>
      replace (tagRx ''<phoneme'') [] \<circ>
      replace (lits ''</s>'') [] \<circ>
      replace (lits ''<s>'') [] \<circ>
      replace (lits ''</p>'') [] \<circ>
      replace (lits ''<p>'') [] \<circ>
      replace (lits ''</emphasis>'') [] \<circ>
      replace (tagRx ''<emphasis'') [] \<circ>
      replace (tagRx ''<break'') '', '') text0"

text \<open>
  \<open>/(?:\[\s*[Ll]ine\s*(\d+)(?:\s*-\s*\d+)?\s*\]|(?:^|\s)[Ll]ine\s*(\d+)(?:\s*-\s*\d+)?\s*(?:\:|\.|,|;|\s|$))/g\<close>
\<close>

definition isLl :: "char \<Rightarrow> bool" where
  "isLl c = (c = CHR ''L'' \<or> c = CHR ''l'')"

definition rangeTail :: rx where
  "rangeTail = ROpt (seqs [ws0, RLit CHR ''-'', ws0, digits1])"

definition bracketRef :: rx where
  "bracketRef = seqs [RLit CHR ''['', ws0, RCls isLl, lits ''ine'', ws0, RGrp 1 digits1,
                      rangeTail, ws0, RLit CHR '']'']"

definition bareRef :: rx where
  "bareRef = seqs [RAlt RBol (RCls isSpace), RCls isLl, lits ''ine'', ws0, RGrp 2 digits1,
                   rangeTail, ws0,
                   alts [RLit CHR '':'', RLit CHR ''.'', RLit CHR '','', RLit CHR '';'',
                         RCls isSpace, REol]]"

definition lineRegex :: rx where
  "lineRegex = RAlt bracketRef bareRef"

text \<open>\<open>/[Ll]ine\s*(\d+)/g\<close>\<close>

definition fallbackRegex :: rx where
  "fallbackRegex = seqs [RCls isLl, lits ''ine'', ws0, RGrp 1 digits1]"

text \<open>
  \<open>parseInt(match[1] || match[2], 10)\<close>: a group that took no part in the match is
  \<open>undefined\<close>, and \<open>||\<close> passes over \<open>undefined\<close> and the empty string.
\<close>

definition orElse :: "string option \<Rightarrow> string option \<Rightarrow> string option" where
  "orElse a b = (case a of Some (c # cs) \<Rightarrow> a | _ \<Rightarrow> b)"

definition parseIntOpt :: "string option \<Rightarrow> int option" where
  "parseIntOpt a = (case a of None \<Rightarrow> None | Some s \<Rightarrow> parseInt s)"

text \<open>The body of the two \<open>while\<close> loops: one marker per match whose number parses.\<close>

definition markersOf :: "(caps \<Rightarrow> string option) \<Rightarrow> (string \<times> caps) list \<Rightarrow> LineMarker list" where
  "markersOf pick ms =
     concat (map (\<lambda>(m, k). case parseIntOpt (pick k) of
                               None \<Rightarrow> []
                             | Some lineNum \<Rightarrow> [\<lparr> markerText = m, lineNumber = lineNum - 1 \<rparr>]) ms)"

text \<open>A line that is neither empty nor a comment (the line is trimmed by the caller).\<close>

definition isMeaningful :: "string \<Rightarrow> bool" where
  "isMeaningful line =
     (line \<noteq> [] \<and> \<not> startsWith line ''//'' \<and> \<not> startsWith line ''/*''
      \<and> \<not> startsWith line ''*'' \<and> \<not> startsWith line ''#'')"

text \<open>
  The look-ahead loop \<open>for (let i = 0; i < 5; i++)\<close>. The line number has been clamped
  into the code before, so \<open>codeLines[checkLine]\<close> is read in range.
\<close>

function lookAhead :: "string list \<Rightarrow> int \<Rightarrow> int \<Rightarrow> nat \<Rightarrow> int" where
  "lookAhead codeLines lnum finalLineNumber i =
     (if i < 5 then
        (let checkLine = lnum + int i in
         if checkLine > int (length codeLines) - 1 then finalLineNumber
         else if isMeaningful (trim (codeLines ! nat checkLine)) then checkLine
         else lookAhead codeLines lnum finalLineNumber (i + 1))
      else finalLineNumber)"
  by pat_completeness auto
termination
  by (relation "measure (\<lambda>(c, l, f, i). 5 - i)") auto

declare lookAhead.simps [simp del]

definition validateMarker :: "string list \<Rightarrow> LineMarker \<Rightarrow> LineMarker" where
  "validateMarker codeLines marker =
     (let lnum0 = lineNumber marker;
          lnum = (if lnum0 < 0 then 0
                else if lnum0 \<ge> int (length codeLines) then int (length codeLines) - 1
                else lnum0)
      in \<lparr> markerText = markerText marker, lineNumber = lookAhead codeLines lnum lnum 0 \<rparr>)"

text \<open>Decimal notation of a number, for the template \<open>`Synthetic marker ${i}`\<close>.\<close>

fun showNat :: "nat \<Rightarrow> string" where
  "showNat n = (if n < 10 then [char_of (48 + n)] else showNat (n div 10) @ [char_of (48 + n mod 10)])"

declare showNat.simps [simp del]

definition syntheticMarkers :: "string list \<Rightarrow> LineMarker list" where
  "syntheticMarkers codeLines =
     (let len = length codeLines;
          numMarkers = min 8 (max 3 (len div 15));
          interval = len div (numMarkers + 1)
      in concat (map (\<lambda>i. if i * interval < len
                            then [\<lparr> markerText = ''Synthetic marker '' @ showNat i,
                                    lineNumber = int (i * interval) \<rparr>]
                            else []) [1 ..< numMarkers + 1]))"

text \<open>
  \<open>extractLineReferences(text, codeToValidate)\<close>. An absent or empty code is falsy.
  Nothing in the body of the \<open>try\<close> throws, so the \<open>catch\<close> has no branch.
\<close>

definition extractLineReferences :: "string \<Rightarrow> string option \<Rightarrow> LineMarker list" where
  "extractLineReferences text0 codeToValidate =
     (let cleanText = cleanSSML text0;
          primary = markersOf (\<lambda>k. orElse (group k 1) (group k 2)) (execAll lineRegex None cleanText);
          lineMarkers = (if length primary = 0
                         then markersOf (\<lambda>k. group k 1) (execAll fallbackRegex None cleanText)
                         else primary);
          code = (case codeToValidate of Some (c # cs) \<Rightarrow> Some (c # cs) | _ \<Rightarrow> None)
      in if code \<noteq> None \<and> length lineMarkers > 0
         then map (validateMarker (splitOn CHR 0x0A (the code))) lineMarkers
         else if length lineMarkers > 0 then lineMarkers
         else if code \<noteq> None then syntheticMarkers (splitOn CHR 0x0A (the code))
         else [])"

section \<open>Voices, requests and answers\<close>

datatype gender = MALE | FEMALE | NEUTRAL

datatype voiceType = standard | wavenet | neural2

record VoiceOptions =
  languageCode :: string
  name :: string
  ssmlGender :: gender
  voiceType :: voiceType

definition defaultVoice :: VoiceOptions where
  "defaultVoice = \<lparr> languageCode = ''en-US'', name = ''en-US-Neural2-D'', ssmlGender = MALE,
                     voiceType = neural2 \<rparr>"

text \<open>
  What the request to \<open>/api/tts\<close> comes back with. The body of a successful answer is
  the object the route sends (\<open>success\<close>, \<open>audio\<close>, \<open>error\<close>); \<open>JsonNull\<close> is a body on
  which reading a property throws.
\<close>

record ttsBody =
  success :: bool
  audio :: "string option"
  error :: "string option"

datatype fetchOutcome =
    FetchFailed string
  | HttpError nat string
  | BodyUnreadable string
  | NotJson
  | JsonNull
  | Json ttsBody

record ttsRequest =
  requestText :: string
  requestIsSSML :: bool
  requestVoice :: VoiceOptions

section \<open>The browser around the service\<close>

text \<open>
  The service runs on the single event loop of a browser. The model makes explicit what
  the code touches there: the clock, the pending \<open>setTimeout\<close> timers, the audio
  elements and utterances it created (with the arrays of timers their handlers close
  over), the requests it sent, and the calls it made to the caller's callbacks.
\<close>

datatype timerBody =
    HighlightTimer int
  | FinishTimer

record timer =
  timerId :: nat
  due :: int
  body :: timerBody

datatype callbackCall =
    LineHighlighted nat int
  | Finished nat

record audioElement =
  audioTimers :: "nat list"
  audioText :: string
  audioMarkers :: "LineMarker list"
  audioPaused :: bool

record utterance =
  utteranceText :: string
  utteranceTimers :: "nat list"
  utteranceCancelled :: bool

text \<open>A call of \<open>speak\<close> that waits for the answer to its request.\<close>

record pendingSpeak =
  pendingText :: string
  pendingMarkers :: "LineMarker list"
  pendingDone :: bool

record world =
  speechState :: SpeechState
  clock :: int
  timers :: "timer list"
  nextTimerId :: nat
  audios :: "audioElement list"
  utterances :: "utterance list"
  requests :: "ttsRequest list"
  pending :: "pendingSpeak list"
  calls :: "(int \<times> callbackCall) list"
  windowDefined :: bool
  hasSpeechSynthesis :: bool

definition world0 :: world where
  "world0 = \<lparr> speechState = speechState0, clock = 0, timers = [], nextTimerId = 0,
     audios = [], utterances = [], requests = [], pending = [], calls = [],
     windowDefined = True, hasSpeechSynthesis = True \<rparr>"

text \<open>
  \<open>setTimeout(f, delay)\<close>: the delay is a number of the program (a rational here); the
  browser cuts it to whole milliseconds, a negative one to zero. The result is the
  timer's handle.
\<close>

definition setTimeout :: "timerBody \<Rightarrow> rat \<Rightarrow> world \<Rightarrow> nat \<times> world" where
  "setTimeout b delay w =
     (let tid = nextTimerId w;
          t = \<lparr> timerId = tid, due = clock w + max 0 \<lfloor>delay\<rfloor>, body = b \<rparr>
      in (tid, w\<lparr> timers := timers w @ [t], nextTimerId := tid + 1 \<rparr>))"

definition clearTimeout :: "nat \<Rightarrow> world \<Rightarrow> world" where
  "clearTimeout tid w = w\<lparr> timers := filter (\<lambda>t. timerId t \<noteq> tid) (timers w) \<rparr>"

definition clearTimeouts :: "nat list \<Rightarrow> world \<Rightarrow> world" where
  "clearTimeouts tids w = fold clearTimeout tids w"

text \<open>
  \<open>if (speechState.onFinishCallback) speechState.onFinishCallback()\<close> and its sibling
  for the line callback. The callbacks belong to the caller; a call is recorded with the
  time and the identity of the function called.
\<close>

definition callOnFinish :: "world \<Rightarrow> world" where
  "callOnFinish w =
     (case onFinishCallback (speechState w) of
        None \<Rightarrow> w
      | Some f \<Rightarrow> w\<lparr> calls := calls w @ [(clock w, Finished f)] \<rparr>)"

definition callLineNumber :: "int \<Rightarrow> world \<Rightarrow> world" where
  "callLineNumber n w =
     (case lineNumberCallback (speechState w) of
        None \<Rightarrow> w
      | Some f \<Rightarrow> w\<lparr> calls := calls w @ [(clock w, LineHighlighted f n)] \<rparr>)"

definition updState :: "(SpeechState \<Rightarrow> SpeechState) \<Rightarrow> world \<Rightarrow> world" where
  "updState f w = w\<lparr> speechState := f (speechState w) \<rparr>"

text \<open>Running a timer's callback.\<close>

fun runTimerBody :: "timerBody \<Rightarrow> world \<Rightarrow> world" where
  "runTimerBody (HighlightTimer n) w = callLineNumber n w"
| "runTimerBody FinishTimer w = callOnFinish w"

text \<open>
  Time passes until \<open>t\<close>: the pending timers due by then fire in the order of their due
  times (in the order of creation among equals), each at its due time. No timer of this
  service arms another, so the timers due are those pending at the start; one cleared
  in between does not fire.
\<close>

definition fireTimer :: "timer \<Rightarrow> world \<Rightarrow> world" where
  "fireTimer t w =
     (if t \<in> set (timers w)
      then runTimerBody (body t)
             ((clearTimeout (timerId t) w)\<lparr> clock := max (clock w) (due t) \<rparr>)
      else w)"

definition dueTimers :: "int \<Rightarrow> world \<Rightarrow> timer list" where
  "dueTimers t w = sort_key due (filter (\<lambda>x. due x \<le> t) (timers w))"

definition advanceTo :: "int \<Rightarrow> world \<Rightarrow> world" where
  "advanceTo t w =
     (let w' = fold fireTimer (dueTimers t w) w in w'\<lparr> clock := max (clock w') t \<rparr>)"

text \<open>
  \<open>new TextEncoder().encode(s).length\<close> for code units below 256: one byte below 128,
  two from there on.
\<close>

definition utf8Length :: "string \<Rightarrow> nat" where
  "utf8Length s = sum_list (map (\<lambda>c. if (of_char c :: nat) < 128 then 1 else 2) s)"

text \<open>
  \<open>atob(s)\<close>, by the forgiving base64 decoding of the platform: white space is dropped,
  one or two closing \<open>=\<close> are dropped when the length is a multiple of four, a length
  of one modulo four fails, and so does any character outside the alphabet. Only the
  number of decoded bytes is kept; \<open>None\<close> is the exception thrown.
\<close>

definition isBase64Char :: "char \<Rightarrow> bool" where
  "isBase64Char c =
     (c \<in> set ''abcdefghijklmnopqrstuvwxyzABCDEFGHIJKLMNOPQRSTUVWXYZ0123456789+/'')"

definition isAsciiSpace :: "char \<Rightarrow> bool" where
  "isAsciiSpace c = (c \<in> set [CHR 0x09, CHR 0x0A, CHR 0x0C, CHR 0x0D, CHR '' ''])"

definition stripPadding :: "string \<Rightarrow> string" where
  "stripPadding s =
     (if length s mod 4 = 0 then
        (if length s \<ge> 2 \<and> drop (length s - 2) s = ''=='' then take (length s - 2) s
         else if length s \<ge> 1 \<and> drop (length s - 1) s = ''='' then take (length s - 1) s
         else s)
      else s)"

definition atob :: "string \<Rightarrow> nat option" where
  "atob s =
     (let d = stripPadding (filter (\<lambda>c. \<not> isAsciiSpace c) s)
      in if length d mod 4 = 1 then None
         else if \<exists>c \<in> set d. \<not> isBase64Char c then None
         else Some (length d * 6 div 8))"

text \<open>\<open>/^[A-Za-z0-9+/=]+$/.test(s)\<close>\<close>

definition base64Regex :: rx where
  "base64Regex = seqs [RBol, RRep (\<lambda>c. isBase64Char c \<or> c = CHR ''='') 1, REol]"

text \<open>The repair of the padding that both the request and the playback side apply.\<close>

definition padBase64 :: "string \<Rightarrow> string" where
  "padBase64 a =
     (if length a mod 4 \<noteq> 0
      then (let paddingNeeded = 4 - length a mod 4
            in if paddingNeeded < 4 then a @ replicate paddingNeeded CHR ''='' else a)
      else a)"

section \<open>The remote synthesis adapter\<close>

text \<open>
  \<open>textToSSML(text, voiceOptions, false)\<close>. The service only ever passes \<open>false\<close> for
  \<open>removeLiteralLineMarkers\<close>, and that is the branch embedded here.
\<close>

definition escapeXml :: "string \<Rightarrow> string" where
  \<open>escapeXml text0 =
     (replace (RLit (CHR 0x27)) ''&apos;'' \<circ>
      replace (RLit (CHR 0x22)) ''&quot;'' \<circ>
      replace (RLit CHR ''>'') ''&gt;'' \<circ>
      replace (RLit CHR ''<'') ''&lt;'' \<circ>
      replace (RLit CHR ''&'') ''&amp;'') text0\<close>

definition addPauses :: "string \<Rightarrow> string" where
  \<open>addPauses s =
     (replace (RSeq (RLit CHR ''?'') (RCls isSpace)) ''?<break time="400ms"/> '' \<circ>
      replace (RSeq (RLit CHR ''!'') (RCls isSpace)) ''!<break time="400ms"/> '' \<circ>
      replace (RSeq (RLit CHR '':'') (RCls isSpace)) '':<break time="250ms"/> '' \<circ>
      replace (RSeq (RLit CHR '';'') (RCls isSpace)) '';<break time="300ms"/> '' \<circ>
      replace (RSeq (RLit CHR ''.'') (RCls isSpace)) ''.<break time="350ms"/> '') s\<close>

text \<open>
  \<open>/\b(function|class|const|let|var|return|if|else|for|while|try|catch|import|from|export)\b/g\<close>
  and \<open>/\`([^\`]+)\`/g\<close>
\<close>

definition keywordRegex :: rx where
  "keywordRegex = seqs [RWordB,
     RGrp 1 (alts (map lits [''function'', ''class'', ''const'', ''let'', ''var'', ''return'',
        ''if'', ''else'', ''for'', ''while'', ''try'', ''catch'', ''import'', ''from'', ''export''])),
     RWordB]"

definition backtickRegex :: rx where
  "backtickRegex = seqs [RLit CHR ''`'', RGrp 1 (RRep (\<lambda>c. c \<noteq> CHR ''`'') 1), RLit CHR ''`'']"

definition emphasis :: "string \<Rightarrow> string" where
  \<open>emphasis s = ''<emphasis level="moderate">'' @ s @ ''</emphasis>''\<close>

definition textToSSML :: "string \<Rightarrow> string" where
  \<open>textToSSML text0 =
     (let escapedText = escapeXml text0;
          ssml = replaceAll backtickRegex (\<lambda>m k. emphasis (the (group k 1))) None
                   (replaceAll keywordRegex (\<lambda>m k. emphasis m) None (addPauses escapedText))
      in ''<speak><prosody rate="0.95">'' @ ssml @ ''</prosody></speak>'')\<close>

text \<open>\<open>/\bline\s+\d+\b/i\<close>\<close>

definition looseLineRegex :: rx where
  "looseLineRegex = seqs [RWordB, RCls (\<lambda>c. c = CHR ''l'' \<or> c = CHR ''L''),
     RCls (\<lambda>c. c = CHR ''i'' \<or> c = CHR ''I''), RCls (\<lambda>c. c = CHR ''n'' \<or> c = CHR ''N''),
     RCls (\<lambda>c. c = CHR ''e'' \<or> c = CHR ''E''), RRep isSpace 1, digits1, RWordB]"

text \<open>
  The text that \<open>synthesizeSpeech\<close> writes itself when the narration has no line marker
  and a code is given: one sentence per line of code that is not empty or a comment.
\<close>

definition isCodeLine :: "string \<Rightarrow> bool" where
  "isCodeLine line =
     (line \<noteq> [] \<and> \<not> startsWith line ''//'' \<and> \<not> startsWith line ''/*'' \<and> \<not> startsWith line ''*'')"

definition enhancedText :: "string list \<Rightarrow> string" where
  \<open>enhancedText codeLines =
     ''This code has '' @ showNat (length codeLines)
       @ '' lines. Let'' @ [CHR 0x27] @ ''s examine it line by line. <break time="1s"/>''
       @ concat (map (\<lambda>(i, l). let line = trim l in
                        if isCodeLine line
                        then ''<break time="0.5s"/> [Line '' @ showNat (i + 1) @ '']: '' @ line
                               @ '' <break time="0.8s"/>''
                        else [])
                     (enumerate 0 codeLines))\<close>

text \<open>The markup that is sent: the narration (or the text above) as SSML.\<close>

definition wrappedSSML :: "string \<Rightarrow> string option \<Rightarrow> string" where
  \<open>wrappedSSML text0 codeToValidate =
     (let hasLineMarkers = (includesStr text0 ''[Line'' \<or> includesStr text0 ''Line ''
                            \<or> test looseLineRegex text0);
          text1 = (case codeToValidate of
                     Some (c # cs) \<Rightarrow> if \<not> hasLineMarkers
                                      then enhancedText (splitOn CHR 0x0A (c # cs)) else text0
                   | _ \<Rightarrow> text0);
          ssmlText = textToSSML text1
      in if startsWith (trim ssmlText) ''<speak>'' then ssmlText
         else ''<speak>'' @ ssmlText @ ''</speak>'')\<close>

definition showInt :: "int \<Rightarrow> string" where
  "showInt i = (if i < 0 then CHR ''-'' # showNat (nat (- i)) else showNat (nat i))"

text \<open>\<open>`tts-fallback-${Date.now()}`\<close>\<close>

definition fallbackId :: "world \<Rightarrow> string" where
  "fallbackId w = ''tts-fallback-'' @ showInt (clock w)"

definition failWith :: "string \<Rightarrow> world \<Rightarrow> string \<times> world" where
  "failWith reason w =
     (let w' = updState (recordFailure (clock w) reason) w in (fallbackId w', w'))"

text \<open>
  An exception of the host language, with its message. A function that may throw returns
  a sum, \<open>Inl\<close> the exception; a promise that rejects is the same.
\<close>

datatype jsError = JsError string

text \<open>
  \<open>synthesizeSpeech(text, voiceOptions, codeToValidate)\<close> runs up to the point where it
  awaits the answer to its request; it resumes when the answer is there. The first part
  returns \<open>Some\<close> result when the promise settles without a request, and \<open>None\<close> when the
  request is on its way.
\<close>

definition synthesizeSpeechStart ::
    "string \<Rightarrow> VoiceOptions \<Rightarrow> string option \<Rightarrow> world \<Rightarrow> (jsError + string) option \<times> world" where
  "synthesizeSpeechStart text0 voiceOptions codeToValidate w =
     (let wrapped = wrappedSSML text0 codeToValidate;
          textBytes = utf8Length wrapped
      in if textBytes > 5000 then (Some (Inr (fallbackId w)), w)
         else if shouldUseFallbackDirectly (clock w) (speechState w)
              then (Some (Inr (fallbackId w)), w)
         else if \<not> windowDefined w
              then (let (fid, w') = failWith ''window is not defined'' w in (Some (Inr fid), w'))
         else (None, w\<lparr> requests := requests w @
                 [\<lparr> requestText = wrapped, requestIsSSML = True, requestVoice = voiceOptions \<rparr>] \<rparr>))"

text \<open>
  The body of the \<open>try\<close> from the answer on. An exception thrown there (the request
  failed, the body could not be read, a property of \<open>null\<close> was read) is an \<open>Inl\<close>.
\<close>

definition truthyStr :: "string option \<Rightarrow> bool" where
  "truthyStr a = (case a of Some (c # cs) \<Rightarrow> True | _ \<Rightarrow> False)"

definition afterFetch :: "fetchOutcome \<Rightarrow> world \<Rightarrow> (jsError + string) \<times> world" where
  "afterFetch outcome w =
     (case outcome of
        FetchFailed msg \<Rightarrow> (Inl (JsError msg), w)
      | HttpError status errorText \<Rightarrow>
          map_prod Inr id
            (failWith (''API error ('' @ showNat status @ ''): '' @ substring errorText 0 100) w)
      | BodyUnreadable msg \<Rightarrow> (Inl (JsError msg), w)
      | NotJson \<Rightarrow> map_prod Inr id (failWith ''Invalid JSON response from API'' w)
      | JsonNull \<Rightarrow> (Inl (JsError ''Cannot read properties of null''), w)
      | Json responseData \<Rightarrow>
          if success responseData \<and> truthyStr (audio responseData)
             \<and> length (the (audio responseData)) > 0
          then (let a = padBase64 (the (audio responseData))
                in if \<not> test base64Regex a
                   then map_prod Inr id (failWith ''Invalid base64 characters in audio data'' w)
                   else (case atob (substring a 0 100) of
                           None \<Rightarrow> map_prod Inr id (failWith ''Invalid base64 encoding'' w)
                         | Some n \<Rightarrow> (Inr a, updState (resetErrorState (clock w)) w)))
          else if truthyStr (error responseData)
          then map_prod Inr id
                 (failWith (''API returned error: '' @ the (error responseData)) w)
          else map_prod Inr id (failWith ''Invalid or missing audio data from API'' w))"

text \<open>The \<open>catch\<close> around it: the failure is recorded and the fallback id returned.\<close>

definition synthesizeSpeechResume :: "fetchOutcome \<Rightarrow> world \<Rightarrow> (jsError + string) \<times> world" where
  "synthesizeSpeechResume outcome w =
     (case afterFetch outcome w of
        (Inl (JsError msg), w') \<Rightarrow> map_prod Inr id (failWith msg w')
      | (Inr r, w') \<Rightarrow> (Inr r, w'))"

section \<open>The local fallback: the Web Speech API\<close>

text \<open>The chain of \<open>replace\<close> calls that strips the markup for the browser's voice.\<close>

definition bracketLineRx :: rx where
  "bracketLineRx = seqs [lits ''[Line'', ws0, RGrp 1 digits1, RLit CHR '']'']"

definition bracketLinesRx :: rx where
  "bracketLinesRx = seqs [lits ''[Lines'', ws0, RGrp 1 digits1, ws0, RLit CHR ''-'', ws0,
                          RGrp 2 digits1, RLit CHR '']'']"

definition cleanForSpeech :: "string \<Rightarrow> string" where
  "cleanForSpeech text0 =
     (replaceAll bracketLinesRx
        (\<lambda>m k. ''Lines '' @ the (group k 1) @ '' to '' @ the (group k 2)) None \<circ>
      replaceAll bracketLineRx (\<lambda>m k. ''Line '' @ the (group k 1)) None \<circ>
      replace (tagRx ''<'') [] \<circ>
      replace (lits ''</s>'') ''. '' \<circ>
      replace (lits ''<s>'') [] \<circ>
      replace (lits ''</p>'') ''. '' \<circ>
      replace (lits ''<p>'') [] \<circ>
      replace (lits ''</say-as>'') [] \<circ>
      replace (tagRx ''<say-as'') [] \<circ>
      replace (lits ''</speak>'') [] \<circ>
      replace (tagRx ''<speak'') [] \<circ>
      replace (lits ''</prosody>'') [] \<circ>
      replace (tagRx ''<prosody'') [] \<circ>
      replace (lits ''</voice>'') [] \<circ>
      replace (tagRx ''<voice'') [] \<circ>
      replace (lits ''</emphasis>'') [] \<circ>
      replace (tagRx ''<emphasis'') [] \<circ>
      replace (tagRx ''<break'') '', '') text0"

text \<open>
  Markers made from the sentences of the text when it names no line: the first ten
  sentences of more than ten characters, numbered from 0.
\<close>

definition sentenceEndRx :: rx where
  "sentenceEndRx = RSeq (RCls (\<lambda>c. c \<in> set ''.!?'')) (RRep isSpace 1)"

definition sentenceMarkers :: "string \<Rightarrow> LineMarker list" where
  "sentenceMarkers cleanText =
     map (\<lambda>(lineCount, s). \<lparr> markerText = s, lineNumber = int (lineCount mod 10) \<rparr>)
       (take 10 (enumerate 0 (filter (\<lambda>s. length (trim s) > 10) (splitRx sentenceEndRx cleanText))))"

text \<open>
  The markers the fallback works with: those it was given, else those it reads from the
  clean text (first pattern, then the lenient one), else the ones made from sentences.
  The source pushes them into the array it was given.
\<close>

definition fallbackMarkers :: "string \<Rightarrow> LineMarker list \<Rightarrow> LineMarker list" where
  "fallbackMarkers cleanText lineMarkers =
     (let m1 = (if length lineMarkers = 0
                then (let p = markersOf (\<lambda>k. orElse (group k 1) (group k 2))
                                (execAll lineRegex None cleanText)
                      in if length p = 0
                         then markersOf (\<lambda>k. group k 1) (execAll fallbackRegex None cleanText)
                         else p)
                else lineMarkers)
      in if length m1 = 0 then sentenceMarkers cleanText else m1)"

text \<open>
  The estimate of the duration of the speech, in milliseconds. Numbers of the program
  are rationals here (no rounding). \<open>utterance.rate || 1\<close> replaces a rate of zero.
\<close>

definition wordCount :: "string \<Rightarrow> nat" where
  "wordCount s = length (splitRx (RRep isSpace 1) s)"

definition pauseCount :: "string \<Rightarrow> nat" where
  "pauseCount s = length (execAll (RCls (\<lambda>c. c \<in> set '',.;:?!'')) None s)"

definition totalDurationMs :: "string \<Rightarrow> rat \<Rightarrow> rat" where
  "totalDurationMs cleanText rate =
     (let baseWordsPerSecond = 5 / 2;
          speechRate = (if rate = 0 then 1 else rate);
          wordsPerSecond = baseWordsPerSecond / speechRate;
          pauseDuration = 250;
          baseDuration = (of_nat (wordCount cleanText) / wordsPerSecond) * 1000;
          pauseTime = of_nat (pauseCount cleanText) * pauseDuration
      in baseDuration + pauseTime)"

definition utteranceRate :: rat where
  "utteranceRate = 9 / 10"

text \<open>\<open>findApproximatePositions\<close>: where a marker stands in the text, as a fraction.\<close>

definition approximatePosition :: "string \<Rightarrow> nat \<Rightarrow> nat \<Rightarrow> LineMarker \<Rightarrow> rat \<times> string" where
  "approximatePosition cleanText n markerIndex marker =
     (let markerPattern = substring (markerText marker) 0 (min 15 (length (markerText marker)))
      in case indexOf cleanText markerPattern of
           Some (Suc i) \<Rightarrow>
             (of_nat (Suc i) / of_nat (length cleanText),
              substring cleanText (Suc i - 10) (min (length cleanText) (Suc i + 30)))
         | _ \<Rightarrow>
             (if n \<le> 1 then 2 / 10
              else 1 / 10 + (8 / 10) * (of_nat markerIndex / (of_nat n - 1)),
              ''[position estimated]''))"

definition sentenceBreakRx :: rx where
  "sentenceBreakRx = seqs [RCls (\<lambda>c. c \<in> set ''.!?''), ws0, REol]"

definition highlightTiming :: "string \<Rightarrow> rat \<Rightarrow> nat \<Rightarrow> nat \<Rightarrow> LineMarker \<Rightarrow> rat" where
  "highlightTiming cleanText totalMs n index marker =
     (let (position, textAroundMarker) = approximatePosition cleanText n index marker;
          basicTiming = position * totalMs;
          initialDelay = 500;
          progressiveFactor = max 0 (1 - (of_nat index / of_nat n) * (3 / 2));
          progressiveDelay = initialDelay * progressiveFactor;
          minSpaceBetweenHighlights = 400;
          spacingAdjustment = of_nat index * (minSpaceBetweenHighlights * (1 / 2)) * (1 - position);
          textBeforeMarker = substring textAroundMarker 0 10;
          sentenceBreakDelay = (if test sentenceBreakRx textBeforeMarker then 500 else 0)
      in basicTiming + progressiveDelay + spacingAdjustment + sentenceBreakDelay)"

text \<open>Arming a list of timers; the handles come back in order.\<close>

fun armAll :: "(timerBody \<times> rat) list \<Rightarrow> world \<Rightarrow> nat list \<times> world" where
  "armAll [] w = ([], w)"
| "armAll ((b, d) # rest) w =
     (let (tid, w1) = setTimeout b d w; (tids, w2) = armAll rest w1 in (tid # tids, w2))"

text \<open>
  \<open>useBrowserSpeechAPI(text, speechState, lineMarkers)\<close>. It arms the fail-safe
  highlights and the safety timer first and keeps them in an array \<open>timers\<close>; inside
  the \<open>try\<close> a second array of the same name holds the adaptive highlights, and it is
  that one the \<open>onend\<close> handler clears. Without a window, the test for
  \<open>speechSynthesis\<close> throws and the \<open>catch\<close> calls the finish callback. The function is
  \<open>async\<close> and catches what it throws: its promise does not reject. The result is the
  array of markers as the function leaves it. \<open>armFailSafe\<close> is the part before the
  \<open>try\<close>, \<open>startUtterance\<close> the body of the \<open>try\<close> once the browser is known to speak.
\<close>

definition armFailSafe :: "LineMarker list \<Rightarrow> world \<Rightarrow> world" where
  "armFailSafe lineMarkers w =
     (if length lineMarkers > 0 \<and> lineNumberCallback (speechState w) \<noteq> None
      then snd (armAll
             (map (\<lambda>(index, marker).
                     (HighlightTimer (lineNumber marker),
                      (10000 / of_nat (length lineMarkers)) * of_nat index))
                  (enumerate 0 lineMarkers)) w)
      else w)"

definition startUtterance :: "string \<Rightarrow> LineMarker list \<Rightarrow> world \<Rightarrow> LineMarker list \<times> world" where
  "startUtterance text0 lineMarkers w =
     (let cleanText = cleanForSpeech text0;
          markers = fallbackMarkers cleanText lineMarkers;
          totalMs = totalDurationMs cleanText utteranceRate;
          scheduledHighlights =
            map (\<lambda>(index, marker).
                   (HighlightTimer (lineNumber marker),
                    highlightTiming cleanText totalMs (length markers) index marker))
                (enumerate 0 markers);
          (tids, w3) = armAll scheduledHighlights w;
          u = \<lparr> utteranceText = cleanText, utteranceTimers = tids, utteranceCancelled = False \<rparr>;
          w4 = w3\<lparr> utterances := utterances w3 @ [u] \<rparr>
      in (markers,
          updState (\<lambda>s. s\<lparr> currentUtterance := Some (UtteranceRef (length (utterances w3))) \<rparr>) w4))"

definition useBrowserSpeechAPI :: "string \<Rightarrow> LineMarker list \<Rightarrow> world \<Rightarrow> LineMarker list \<times> world" where
  "useBrowserSpeechAPI text0 lineMarkers w =
     (let w1 = armFailSafe lineMarkers w;
          (safetyTimer, w2) = setTimeout FinishTimer 15000 w1
      in if \<not> windowDefined w2 then (lineMarkers, callOnFinish w2)
         else if \<not> hasSpeechSynthesis w2 then (lineMarkers, callOnFinish w2)
         else startUtterance text0 lineMarkers w2)"

text \<open>The handlers of an utterance.\<close>

definition utteranceStart :: "nat \<Rightarrow> world \<Rightarrow> world" where
  "utteranceStart i w = updState (\<lambda>s. s\<lparr> isPlaying := True \<rparr>) w"

definition utteranceEnd :: "nat \<Rightarrow> world \<Rightarrow> world" where
  "utteranceEnd i w =
     (if i < length (utterances w)
      then callOnFinish
             (clearTimeouts (utteranceTimers (utterances w ! i))
                (updState (\<lambda>s. s\<lparr> isPlaying := False \<rparr>) w))
      else w)"

definition utteranceError :: "nat \<Rightarrow> world \<Rightarrow> world" where
  "utteranceError i w =
     (if i < length (utterances w)
      then snd (setTimeout FinishTimer 12000 (updState (\<lambda>s. s\<lparr> hasError := Some True \<rparr>) w))
      else w)"

section \<open>Remote playback, stop and speak\<close>

text \<open>
  \<open>playSpeech(audioIdOrData, text, lineMarkers)\<close> for the string it gets from
  \<open>speak\<close>. Each check that fails hands over to the browser's voice. The highlight of a
  marker whose text is not found in the narration is not armed.
\<close>

definition remoteHighlightTime :: "string \<Rightarrow> nat \<Rightarrow> int" where
  "remoteHighlightTime text0 markerPosition =
     (let wordCount = length (splitRx (RRep isSpace 1) text0);
          estimatedDuration = (of_nat wordCount :: rat) / (5 / 2);
          textBefore = substring text0 0 markerPosition;
          wordsBefore = length (splitRx (RRep isSpace 1) textBefore)
      in \<lfloor>(of_nat wordsBefore / of_nat wordCount) * estimatedDuration * 1000\<rfloor>)"

definition remoteHighlights :: "string \<Rightarrow> LineMarker list \<Rightarrow> (timerBody \<times> rat) list" where
  "remoteHighlights text0 lineMarkers =
     concat (map (\<lambda>marker. case indexOf text0 (markerText marker) of
                              None \<Rightarrow> []
                            | Some markerPosition \<Rightarrow>
                                [(HighlightTimer (lineNumber marker),
                                  of_int (remoteHighlightTime text0 markerPosition))])
                 lineMarkers)"

definition playSpeech :: "string \<Rightarrow> string \<Rightarrow> LineMarker list \<Rightarrow> world \<Rightarrow> world" where
  "playSpeech audioIdOrData text0 lineMarkers w =
     (if \<not> windowDefined w then w
      else if \<not> startsWith audioIdOrData ''tts-fallback-''
      then (if audioIdOrData = [] \<or> length audioIdOrData < 10
            then snd (useBrowserSpeechAPI text0 lineMarkers w)
            else if \<not> test base64Regex audioIdOrData
            then snd (useBrowserSpeechAPI text0 lineMarkers w)
            else (case atob (padBase64 audioIdOrData) of
                    None \<Rightarrow> snd (useBrowserSpeechAPI text0 lineMarkers w)
                  | Some byteCount \<Rightarrow>
                      if byteCount < 100 then snd (useBrowserSpeechAPI text0 lineMarkers w)
                      else (let (tids, w1) = armAll (remoteHighlights text0 lineMarkers) w;
                                a = \<lparr> audioTimers = tids, audioText = text0,
                                      audioMarkers = lineMarkers, audioPaused = False \<rparr>;
                                w2 = w1\<lparr> audios := audios w1 @ [a] \<rparr>
                            in updState (\<lambda>s. s\<lparr> currentUtterance := Some (AudioRef (length (audios w1))) \<rparr>)
                                 w2)))
      else w)"

text \<open>
  The handlers of an audio element. On an error the listener added with
  \<open>addEventListener\<close> runs first, then the \<open>onerror\<close> handler (the second of the two
  assignments stands); both start the browser's voice, on the same array of markers. A
  rejected \<open>play()\<close> starts it too.
\<close>

definition audioPlay :: "nat \<Rightarrow> world \<Rightarrow> world" where
  "audioPlay i w = updState (\<lambda>s. s\<lparr> isPlaying := True \<rparr>) w"

definition audioEnded :: "nat \<Rightarrow> world \<Rightarrow> world" where
  "audioEnded i w =
     (if i < length (audios w)
      then callOnFinish
             (clearTimeouts (audioTimers (audios w ! i))
                (updState (\<lambda>s. s\<lparr> isPlaying := False \<rparr>) w))
      else w)"

definition audioError :: "nat \<Rightarrow> world \<Rightarrow> world" where
  "audioError i w =
     (if i < length (audios w)
      then (let a = audios w ! i;
                (markers1, w1) = useBrowserSpeechAPI (audioText a) (audioMarkers a) w;
                w2 = clearTimeouts (audioTimers a) (updState (\<lambda>s. s\<lparr> isPlaying := False \<rparr>) w1);
                (markers2, w3) = useBrowserSpeechAPI (audioText a) markers1 w2
            in w3\<lparr> audios := (audios w3)[i := a\<lparr> audioMarkers := markers2 \<rparr>] \<rparr>)
      else w)"

definition playRejected :: "nat \<Rightarrow> world \<Rightarrow> world" where
  "playRejected i w =
     (if i < length (audios w)
      then (let a = audios w ! i;
                (markers1, w1) = useBrowserSpeechAPI (audioText a) (audioMarkers a)
                                   (clearTimeouts (audioTimers a) w)
            in w1\<lparr> audios := (audios w1)[i := a\<lparr> audioMarkers := markers1 \<rparr>] \<rparr>)
      else w)"

text \<open>
  \<open>stop()\<close>: the audio element is paused, or the synthesis of the browser cancelled;
  the state forgets the object and is no longer playing. Nothing else changes.
\<close>

definition stop :: "world \<Rightarrow> world" where
  "stop w =
     (let w1 = (case currentUtterance (speechState w) of
                  None \<Rightarrow> w
                | Some (AudioRef i) \<Rightarrow>
                    updState (\<lambda>s. s\<lparr> currentUtterance := None \<rparr>)
                      (w\<lparr> audios := (audios w)[i := (audios w ! i)\<lparr> audioPaused := True \<rparr>] \<rparr>)
                | Some (UtteranceRef i) \<Rightarrow>
                    updState (\<lambda>s. s\<lparr> currentUtterance := None \<rparr>)
                      (if hasSpeechSynthesis w
                       then w\<lparr> utterances := map (\<lambda>u. u\<lparr> utteranceCancelled := True \<rparr>) (utterances w) \<rparr>
                       else w))
      in updState (\<lambda>s. s\<lparr> isPlaying := False \<rparr>) w1)"

text \<open>
  \<open>speak(text, onLineNumber, onFinish, voiceOptionsParam, codeContent)\<close>. The call
  runs until it awaits the answer to the request of \<open>synthesizeSpeech\<close>, or to its end
  when no request is sent; \<open>speakSettled\<close> is the rest, from the result of
  \<open>synthesizeSpeech\<close> on, with the \<open>catch\<close> of \<open>speak\<close> for a rejection.
\<close>

datatype speakResult = Resolved bool | Waiting nat

definition speakSettled ::
    "(jsError + string) \<Rightarrow> string \<Rightarrow> LineMarker list \<Rightarrow> world \<Rightarrow> bool \<times> world" where
  "speakSettled r text0 lineMarkers w =
     (case r of
        Inr audioDataOrFallbackId \<Rightarrow>
          (let w1 = (if startsWith audioDataOrFallbackId ''tts-fallback-''
                     then snd (useBrowserSpeechAPI text0 lineMarkers w)
                     else playSpeech audioDataOrFallbackId text0 lineMarkers w)
           in (True, updState (resetErrorState (clock w1)) w1))
      | Inl (JsError msg) \<Rightarrow>
          (False, snd (useBrowserSpeechAPI text0 lineMarkers
                         (updState (recordFailure (clock w) msg) w))))"

definition speak ::
    "string \<Rightarrow> nat option \<Rightarrow> nat option \<Rightarrow> VoiceOptions option \<Rightarrow> string option
       \<Rightarrow> world \<Rightarrow> speakResult \<times> world" where
  "speak text0 onLineNumber onFinish voiceOptionsParam codeContent w =
     (let w1 = updState (\<lambda>s. s\<lparr> isPlaying := False, currentUtterance := None,
                                lineNumberCallback := onLineNumber,
                                onFinishCallback := onFinish, hasError := Some False \<rparr>)
                 (stop w)
      in if text0 = [] \<or> trim text0 = [] then (Resolved False, callOnFinish w1)
         else
           (let lineMarkers = extractLineReferences text0 codeContent;
                voiceOptionsToUse = (case voiceOptionsParam of None \<Rightarrow> defaultVoice | Some v \<Rightarrow> v)
            in if shouldUseFallbackDirectly (clock w1) (speechState w1)
               then (Resolved True, snd (useBrowserSpeechAPI text0 lineMarkers w1))
               else (case synthesizeSpeechStart text0 voiceOptionsToUse None w1 of
                       (Some r, w2) \<Rightarrow>
                         (let (b, w3) = speakSettled r text0 lineMarkers w2 in (Resolved b, w3))
                     | (None, w2) \<Rightarrow>
                         (Waiting (length (pending w2)),
                          w2\<lparr> pending := pending w2 @
                                [\<lparr> pendingText = text0, pendingMarkers = lineMarkers,
                                   pendingDone = False \<rparr>] \<rparr>))))"

text \<open>
  The answer to the request of the waiting call \<open>i\<close> arrives: \<open>synthesizeSpeech\<close>
  resumes, then \<open>speak\<close>. The result is the boolean the call resolves to.
\<close>

definition fetchSettled :: "nat \<Rightarrow> fetchOutcome \<Rightarrow> world \<Rightarrow> bool option \<times> world" where
  "fetchSettled i outcome w =
     (if i < length (pending w) \<and> \<not> pendingDone (pending w ! i)
      then (let p = pending w ! i;
                (r, w1) = synthesizeSpeechResume outcome w;
                (b, w2) = speakSettled r (pendingText p) (pendingMarkers p) w1
            in (Some b, w2\<lparr> pending := (pending w2)[i := p\<lparr> pendingDone := True \<rparr>] \<rparr>))
      else (None, w))"

text \<open>What can happen, one event at a time, and a run of events.\<close>

datatype event =
    Speak string "nat option" "nat option" "string option"
  | Stop
  | FetchSettles nat fetchOutcome
  | TimePasses int
  | UtteranceStarts nat
  | UtteranceEnds nat
  | UtteranceFails nat
  | AudioPlays nat
  | AudioEnds nat
  | AudioFails nat
  | PlayIsRejected nat

fun step :: "world \<Rightarrow> event \<Rightarrow> world" where
  "step w (Speak t onLine onFin code) = snd (speak t onLine onFin None code w)"
| "step w Stop = stop w"
| "step w (FetchSettles i outcome) = snd (fetchSettled i outcome w)"
| "step w (TimePasses t) = advanceTo t w"
| "step w (UtteranceStarts i) = utteranceStart i w"
| "step w (UtteranceEnds i) = utteranceEnd i w"
| "step w (UtteranceFails i) = utteranceError i w"
| "step w (AudioPlays i) = audioPlay i w"
| "step w (AudioEnds i) = audioEnded i w"
| "step w (AudioFails i) = audioError i w"
| "step w (PlayIsRejected i) = playRejected i w"

definition run :: "event list \<Rightarrow> world \<Rightarrow> world" where
  "run es w = foldl step w es"

section \<open>The backend decision policy\<close>

datatype backend = Local | Remote

text \<open>
  The policy in the words of the specification: five rules, the first that applies wins.
  The quota window and the cooldown read the two optional timestamps of the state.
\<close>

definition policy_rules :: "int \<Rightarrow> SpeechState \<Rightarrow> (bool \<times> backend) list" where
  "policy_rules now s =
     [ (fallbackMode s, Local),
       (case quotaExceededUntil s of None \<Rightarrow> False | Some q \<Rightarrow> now < q, Local),
       (consecutiveErrors s \<ge> 3, Local),
       (case lastErrorTime s of None \<Rightarrow> False | Some t \<Rightarrow> now - t < 30000, Local),
       (True, Remote) ]"

fun first_match :: "(bool \<times> backend) list \<Rightarrow> backend option" where
  "first_match [] = None"
| "first_match ((c, b) # rs) = (if c then Some b else first_match rs)"

definition policy_backend :: "int \<Rightarrow> SpeechState \<Rightarrow> backend option" where
  "policy_backend now s = first_match (policy_rules now s)"

text \<open>
  A timestamp of the state is a value of \<open>Date.now()\<close>, which is positive, and the
  current time is not negative.
\<close>

definition timestamps_ok :: "int \<Rightarrow> SpeechState \<Rightarrow> bool" where
  "timestamps_ok now s =
     (0 \<le> now \<and> lastErrorTime s \<noteq> Some 0)"

text \<open>
  Claim C3. The backend decision of \<open>shouldUseFallbackDirectly\<close> is the policy of the
  specification, evaluated in order with the first match winning: local when the
  fallback flag is set, else local before the quota timestamp, else local from three
  consecutive failures on, else local within 30 seconds of the last failure, else remote.
\<close>

theorem backend_decision_policy:
  assumes "timestamps_ok now s"
  shows "policy_backend now s
         = Some (if shouldUseFallbackDirectly now s then Local else Remote)"
  using assms
  by (cases "quotaExceededUntil s"; cases "lastErrorTime s")
     (auto simp: policy_backend_def policy_rules_def shouldUseFallbackDirectly_def
                 timestamps_ok_def)

theorem backend_decision_policy_witness:
  "timestamps_ok 100000 (speechState0\<lparr> lastErrorTime := Some 90000 \<rparr>)
   \<and> policy_backend 100000 (speechState0\<lparr> lastErrorTime := Some 90000 \<rparr>) = Some Local
   \<and> shouldUseFallbackDirectly 100000 (speechState0\<lparr> lastErrorTime := Some 90000 \<rparr>)"
  using backend_decision_policy [of 100000 "speechState0\<lparr> lastErrorTime := Some 90000 \<rparr>"]
  by (simp add: timestamps_ok_def speechState0_def shouldUseFallbackDirectly_def)

section \<open>Explicit line references\<close>

text \<open>
  What the matcher consumes: the characters an expression can read, and the character
  before the position a match ends at.
\<close>

fun alphabet :: "rx \<Rightarrow> char set" where
  "alphabet REps = {}"
| "alphabet (RLit c) = {c}"
| "alphabet (RCls P) = {c. P c}"
| "alphabet (RRep P n) = {c. P c}"
| "alphabet (RSeq a b) = alphabet a \<union> alphabet b"
| "alphabet (RAlt a b) = alphabet a \<union> alphabet b"
| "alphabet (ROpt a) = alphabet a"
| "alphabet (RGrp i a) = alphabet a"
| "alphabet RBol = {}"
| "alphabet REol = {}"
| "alphabet RWordB = {}"

definition prevOf :: "char option \<Rightarrow> string \<Rightarrow> char option" where
  "prevOf p c = (if c = [] then p else Some (last c))"

lemma prevOf_Nil [simp]: "prevOf p [] = p"
  by (simp add: prevOf_def)

lemma prevOf_append: "prevOf (prevOf p c) d = prevOf p (c @ d)"
  by (simp add: prevOf_def)

lemma prevOf_Cons: "prevOf (Some x) c = prevOf p (x # c)"
  by (simp add: prevOf_def)

lemma repSplits_elem:
  "(p', s') \<in> set (repSplits P p s) \<Longrightarrow> \<exists>c. s = c @ s' \<and> (\<forall>x \<in> set c. P x) \<and> p' = prevOf p c"
proof (induction s arbitrary: p)
  case Nil
  then show ?case by simp
next
  case (Cons x xs)
  show ?case
  proof (cases "(p', s') = (p, x # xs)")
    case True
    then show ?thesis by (intro exI [of _ "[]"]) simp
  next
    case False
    with Cons.prems have Px: "P x" and "(p', s') \<in> set (repSplits P (Some x) xs)"
      by (auto split: if_splits)
    from Cons.IH [OF this(2)] obtain c where
      "xs = c @ s'" "\<forall>x \<in> set c. P x" "p' = prevOf (Some x) c" by blast
    with Px show ?thesis
      by (intro exI [of _ "x # c"]) (simp add: prevOf_Cons [of x c p])
  qed
qed

lemma rmatch_consumes:
  "(p', s', k') \<in> set (rmatch r (p, s, k)) \<Longrightarrow>
     \<exists>c. s = c @ s' \<and> set c \<subseteq> alphabet r \<and> p' = prevOf p c"
proof (induction r arbitrary: p s k p' s' k')
  case REps
  then show ?case by simp
next
  case (RLit x)
  then show ?case
    by (cases s) (auto split: if_splits intro!: exI [of _ "[x]"] simp: prevOf_def)
next
  case (RCls P)
  then show ?case
    by (cases s) (auto split: if_splits intro!: exI [of _ "[hd s]"] simp: prevOf_def)
next
  case (RRep P n)
  then have "(p', s') \<in> set (repSplits P p s)"
    by (auto dest: in_set_dropD)
  from repSplits_elem [OF this] show ?case by auto
next
  case (RSeq a b)
  then obtain p1 s1 k1 where a: "(p1, s1, k1) \<in> set (rmatch a (p, s, k))"
    and b: "(p', s', k') \<in> set (rmatch b (p1, s1, k1))"
    by auto
  from RSeq.IH(1) [OF a] obtain c where c: "s = c @ s1" "set c \<subseteq> alphabet a" "p1 = prevOf p c"
    by blast
  from RSeq.IH(2) [OF b] obtain d where d: "s1 = d @ s'" "set d \<subseteq> alphabet b" "p' = prevOf p1 d"
    by blast
  from c d show ?case
    by (intro exI [of _ "c @ d"]) (auto simp: prevOf_append)
next
  case (RAlt a b)
  then show ?case by (fastforce dest: RAlt.IH)
next
  case (ROpt a)
  then show ?case by (fastforce dest: ROpt.IH)
next
  case (RGrp i a)
  then show ?case by (fastforce dest: RGrp.IH)
next
  case RBol
  then show ?case by (auto split: if_splits)
next
  case REol
  then show ?case by (auto split: if_splits)
next
  case RWordB
  then show ?case by (auto split: if_splits)
qed


lemma matchHere_SomeD:
  assumes "matchHere r p s = Some (p', s', k)"
  shows "\<exists>c. c \<noteq> [] \<and> s = c @ s' \<and> p' = prevOf p c \<and> (p', s', k) \<in> set (rmatch r (p, s, []))"
proof -
  from assms have mem: "(p', s', k) \<in> set (rmatch r (p, s, []))" and len: "length s' < length s"
    by (auto simp: matchHere_def split: list.splits if_splits)
  from rmatch_consumes [OF mem] obtain c where "s = c @ s'" "p' = prevOf p c" by blast
  with len mem show ?thesis by (intro exI [of _ c]) auto
qed

text \<open>An opening bracket is only ever consumed as the first character of a match.\<close>

definition bracketFirst :: "rx \<Rightarrow> bool" where
  "bracketFirst r = (\<forall>p s p' s' k c. (p', s', k) \<in> set (rmatch r (p, s, [])) \<longrightarrow> s = c @ s'
                        \<longrightarrow> CHR ''['' \<notin> set (tl c))"

lemma lits_alphabet: "alphabet (lits cs) = set cs"
  by (induction cs rule: lits.induct) auto

definition bracketTail :: rx where
  "bracketTail = seqs [ws0, RCls isLl, lits ''ine'', ws0, RGrp 1 digits1, rangeTail, ws0, RLit CHR '']'']"

lemma bracketRef_split: "bracketRef = RSeq (RLit CHR ''['') bracketTail"
  by (simp add: bracketRef_def bracketTail_def)

lemma rmatch_seqD:
  "x \<in> set (rmatch (RSeq a b) st) \<Longrightarrow> \<exists>mid \<in> set (rmatch a st). x \<in> set (rmatch b mid)"
  by auto

lemma bracketTail_alphabet: "CHR ''['' \<notin> alphabet bracketTail"
  by (simp add: bracketTail_def ws0_def digits1_def rangeTail_def isSpace_def isLl_def isDigit_def)

lemma bareRef_alphabet: "CHR ''['' \<notin> alphabet bareRef"
  by (simp add: bareRef_def ws0_def digits1_def rangeTail_def isSpace_def isLl_def isDigit_def)

lemma lineRegex_bracketFirst: "bracketFirst lineRegex"
  unfolding bracketFirst_def
proof (intro allI impI)
  fix p s p' s' k c
  assume mem: "(p', s', k) \<in> set (rmatch lineRegex (p, s, []))" and s: "s = c @ s'"
  from mem consider
      (br) "(p', s', k) \<in> set (rmatch bracketRef (p, s, []))"
    | (bare) "(p', s', k) \<in> set (rmatch bareRef (p, s, []))"
    by (auto simp: lineRegex_def)
  then show "CHR ''['' \<notin> set (tl c)"
  proof cases
    case br
    from rmatch_seqD [OF br [unfolded bracketRef_split]] obtain p1 s1 k1 where
      a: "(p1, s1, k1) \<in> set (rmatch (RLit CHR ''['') (p, s, []))" and
      b: "(p', s', k) \<in> set (rmatch bracketTail (p1, s1, k1))"
      by (metis prod_cases3)
    from a have s1: "s = CHR ''['' # s1" by (cases s) (auto split: if_splits)
    from rmatch_consumes [OF b] obtain d where d: "s1 = d @ s'" "set d \<subseteq> alphabet bracketTail"
      by blast
    from s s1 d have "c = CHR ''['' # d" by simp
    with d(2) bracketTail_alphabet show ?thesis by auto
  next
    case bare
    from rmatch_consumes [OF bare] obtain d where "s = d @ s'" "set d \<subseteq> alphabet bareRef"
      by blast
    with s bareRef_alphabet have "CHR ''['' \<notin> set c" by auto
    then show ?thesis by (cases c) auto
  qed
qed

text \<open>
  A match that starts at an opening bracket is found by the scan, whatever precedes it,
  when the expression consumes an opening bracket only as its first character.
\<close>

lemma execAll_finds:
  assumes bf: "bracketFirst r"
      and w: "w = CHR ''['' # w'"
      and m: "matchHere r (prevOf p u) w = Some (p2, s2, k2)"
  shows "(take (length w - length s2) w, k2) \<in> set (execAll r p (u @ w))"
  using m
proof (induction "length u" arbitrary: u p rule: less_induct)
  case less
  show ?case
  proof (cases u)
    case Nil
    with less.prems show ?thesis by (subst execAll.simps) simp
  next
    case (Cons x u')
    show ?thesis
    proof (cases "matchHere r p (u @ w)")
      case None
      have "prevOf (Some x) u' = prevOf p u"
        using Cons by (simp add: prevOf_Cons [of x u' p])
      with less.prems have "matchHere r (prevOf (Some x) u') w = Some (p2, s2, k2)" by simp
      from less.hyps [OF _ this] Cons
      have "(take (length w - length s2) w, k2) \<in> set (execAll r (Some x) (u' @ w))" by simp
      moreover have "execAll r p (u @ w) = execAll r (Some x) (u' @ w)"
        using None Cons by (subst execAll.simps) simp
      ultimately show ?thesis by simp
    next
      case (Some st)
      obtain p' s' k where st: "st = (p', s', k)" by (cases st) auto
      from matchHere_SomeD [OF Some [unfolded st]] obtain c where
        c: "c \<noteq> []" "u @ w = c @ s'" "p' = prevOf p c"
           "(p', s', k) \<in> set (rmatch r (p, u @ w, []))" by blast
      from bf c(2,4) have nb: "CHR ''['' \<notin> set (tl c)"
        unfolding bracketFirst_def by blast
      have "length c \<le> length u"
      proof (rule ccontr)
        assume "\<not> length c \<le> length u"
        then have lc: "length u < length c" by simp
        from c(2) have "c ! length u = (u @ w) ! length u"
          using lc by (metis nth_append)
        then have "c ! length u = CHR ''[''" using w by simp
        moreover have "0 < length u" using Cons by simp
        ultimately have "CHR ''['' \<in> set (tl c)"
          using lc by (metis Suc_pred in_set_conv_nth length_tl less_diff_conv nth_tl
              Suc_eq_plus1)
        with nb show False by simp
      qed
      with c(2) obtain u'' where u'': "u = c @ u''" "s' = u'' @ w"
        by (metis append_eq_append_conv_if append_take_drop_id)
      have "prevOf p' u'' = prevOf p u"
        using c(3) u''(1) by (simp add: prevOf_append)
      with less.prems have "matchHere r (prevOf p' u'') w = Some (p2, s2, k2)" by simp
      moreover have "length u'' < length u" using u''(1) c(1) by simp
      ultimately have "(take (length w - length s2) w, k2) \<in> set (execAll r p' (u'' @ w))"
        using less.hyps by blast
      moreover have "execAll r p (u @ w) = (take (length (u @ w) - length s') (u @ w), k) # execAll r p' s'"
        using Some st by (subst execAll.simps) simp
      ultimately show ?thesis using u''(2) by simp
    qed
  qed
qed


definition firstOf :: "'a list \<Rightarrow> 'a option" where
  "firstOf l = (case l of [] \<Rightarrow> None | x # _ \<Rightarrow> Some x)"

lemma firstOf_simps [simp]: "firstOf [] = None" "firstOf (x # xs) = Some x"
  by (simp_all add: firstOf_def)

lemma first_seq:
  "firstOf (rmatch a st) = Some x \<Longrightarrow> firstOf (rmatch b x) = Some y
     \<Longrightarrow> firstOf (rmatch (RSeq a b) st) = Some y"
  by (auto simp: firstOf_def split: list.splits)

lemma first_alt: "firstOf (rmatch a st) = Some y \<Longrightarrow> firstOf (rmatch (RAlt a b) st) = Some y"
  by (auto simp: firstOf_def split: list.splits)

lemma first_opt_skip: "rmatch a st = [] \<Longrightarrow> firstOf (rmatch (ROpt a) st) = Some st"
  by simp

lemma repSplits_greedy:
  "\<forall>c \<in> set ds. P c \<Longrightarrow> \<not> P x \<Longrightarrow>
     \<exists>l. repSplits P p (ds @ x # rest) = l @ [(prevOf p ds, x # rest)] \<and> length l = length ds"
proof (induction ds arbitrary: p)
  case Nil
  then show ?case by simp
next
  case (Cons d ds)
  from Cons.IH [of "Some d"] Cons.prems obtain l where
    "repSplits P (Some d) (ds @ x # rest) = l @ [(prevOf (Some d) ds, x # rest)]" "length l = length ds"
    by auto
  with Cons.prems show ?case
    by (intro exI [of _ "(p, (d # ds) @ x # rest) # l"]) (simp add: prevOf_Cons [of d ds p])
qed

lemma first_rep:
  assumes "\<forall>c \<in> set ds. P c" "\<not> P x" "n \<le> length ds"
  shows "firstOf (rmatch (RRep P n) (p, ds @ x # rest, k)) = Some (prevOf p ds, x # rest, k)"
proof -
  from repSplits_greedy [OF assms(1,2), of p rest] obtain l where
    l: "repSplits P p (ds @ x # rest) = l @ [(prevOf p ds, x # rest)]" "length l = length ds"
    by blast
  with assms(3) show ?thesis by simp
qed

lemma rep_none: "\<not> P x \<Longrightarrow> rmatch (RRep P 0) (p, x # rest, k) = [(p, x # rest, k)]"
  by simp

lemma digit_not_space: "isDigit c \<Longrightarrow> \<not> isSpace c"
  by (auto simp: isDigit_def isSpace_def)

lemma bracket_match:
  assumes ds: "ds \<noteq> []" "\<forall>c \<in> set ds. isDigit c"
  shows "firstOf (rmatch lineRegex (p, ''[Line '' @ ds @ '']'' @ post, []))
           = Some (Some CHR '']'', post, [(1, ds)])"
proof -
  obtain d ds' where dd: "ds = d # ds'" using ds(1) by (cases ds) auto
  then have d: "isDigit d" using ds(2) by simp
  let ?closing = "RSeq rangeTail (RSeq ws0 (RLit CHR '']''))"
  have closing: "firstOf (rmatch ?closing (q, CHR '']'' # post, k)) = Some (Some CHR '']'', post, k)"
    for q k
    by (simp add: rangeTail_def ws0_def isSpace_def)
  have grp: "firstOf (rmatch (RGrp 1 digits1) (q, ds @ CHR '']'' # post, []))
               = Some (prevOf q ds, CHR '']'' # post, [(1, ds)])" for q
  proof -
    have "firstOf (rmatch digits1 (q, ds @ CHR '']'' # post, []))
            = Some (prevOf q ds, CHR '']'' # post, [])"
      unfolding digits1_def using ds by (intro first_rep) (auto simp: isDigit_def dd)
    then show ?thesis by (auto simp: firstOf_def split: list.splits)
  qed
  have numtail: "firstOf (rmatch (RSeq (RGrp 1 digits1) ?closing) (q, ds @ CHR '']'' # post, []))
               = Some (Some CHR '']'', post, [(1, ds)])" for q
    by (rule first_seq [OF grp closing])
  have sp: "firstOf (rmatch ws0 (q, CHR '' '' # ds @ CHR '']'' # post, []))
              = Some (Some CHR '' '', ds @ CHR '']'' # post, [])" for q
    using first_rep [of "[CHR '' '']" isSpace d 0 q "ds' @ CHR '']'' # post" "[]"] d
    by (simp add: ws0_def dd digit_not_space prevOf_def) (simp add: isSpace_def)
  have fromsp: "firstOf (rmatch (RSeq ws0 (RSeq (RGrp 1 digits1) ?closing))
                   (q, CHR '' '' # ds @ CHR '']'' # post, []))
               = Some (Some CHR '']'', post, [(1, ds)])" for q
    by (rule first_seq [OF sp numtail])
  have ine: "firstOf (rmatch (lits ''ine'') (q, ''ine '' @ ds @ CHR '']'' # post, []))
              = Some (Some CHR ''e'', CHR '' '' # ds @ CHR '']'' # post, [])" for q
    by simp
  have t1: "firstOf (rmatch (RSeq (lits ''ine'') (RSeq ws0 (RSeq (RGrp 1 digits1) ?closing)))
                   (q, ''ine '' @ ds @ CHR '']'' # post, []))
               = Some (Some CHR '']'', post, [(1, ds)])" for q
    by (rule first_seq [OF ine fromsp])
  have L: "firstOf (rmatch (RCls isLl) (q, ''Line '' @ ds @ CHR '']'' # post, []))
              = Some (Some CHR ''L'', ''ine '' @ ds @ CHR '']'' # post, [])" for q
    by (simp add: isLl_def)
  have t2: "firstOf (rmatch (RSeq (RCls isLl) (RSeq (lits ''ine'') (RSeq ws0 (RSeq (RGrp 1 digits1) ?closing))))
                   (q, ''Line '' @ ds @ CHR '']'' # post, []))
               = Some (Some CHR '']'', post, [(1, ds)])" for q
    by (rule first_seq [OF L t1])
  have w0: "firstOf (rmatch ws0 (q, ''Line '' @ ds @ CHR '']'' # post, []))
              = Some (q, ''Line '' @ ds @ CHR '']'' # post, [])" for q
    by (simp add: ws0_def isSpace_def)
  have t3: "firstOf (rmatch bracketTail (q, ''Line '' @ ds @ CHR '']'' # post, []))
               = Some (Some CHR '']'', post, [(1, ds)])" for q
    unfolding bracketTail_def seqs.simps
    by (rule first_seq [OF w0 t2])
  have br: "firstOf (rmatch (RLit CHR ''['') (p, ''[Line '' @ ds @ CHR '']'' # post, []))
              = Some (Some CHR ''['', ''Line '' @ ds @ CHR '']'' # post, [])"
    by simp
  have "firstOf (rmatch bracketRef (p, ''[Line '' @ ds @ CHR '']'' # post, []))
               = Some (Some CHR '']'', post, [(1, ds)])"
    unfolding bracketRef_split
    by (rule first_seq [OF br t3])
  then have "firstOf (rmatch (RAlt bracketRef bareRef) (p, ''[Line '' @ ds @ CHR '']'' # post, []))
               = Some (Some CHR '']'', post, [(1, ds)])"
    by (rule first_alt)
  then show ?thesis
    unfolding lineRegex_def by simp
qed

lemma bracket_matchHere:
  assumes "ds \<noteq> []" "\<forall>c \<in> set ds. isDigit c"
  shows "matchHere lineRegex p (''[Line '' @ ds @ '']'' @ post) = Some (Some CHR '']'', post, [(1, ds)])"
  using bracket_match [OF assms, of p post]
  by (auto simp: matchHere_def firstOf_def split: list.splits)

lemma execAll_bracket:
  assumes "ds \<noteq> []" "\<forall>c \<in> set ds. isDigit c"
  shows "(''[Line '' @ ds @ '']'', [(1, ds)]) \<in> set (execAll lineRegex None (pre @ ''[Line '' @ ds @ '']'' @ post))"
proof -
  let ?w = "''[Line '' @ ds @ '']'' @ post"
  have w: "?w = CHR ''['' # (''Line '' @ ds @ '']'' @ post)" by simp
  have "(take (length ?w - length post) ?w, [(1, ds)]) \<in> set (execAll lineRegex None (pre @ ?w))"
    by (rule execAll_finds [OF lineRegex_bracketFirst w bracket_matchHere [OF assms]])
  moreover have gen: "take (length (a @ b) - length b) (a @ b) = a" for a b :: string by simp
  have "take (length ?w - length post) ?w = ''[Line '' @ ds @ '']''"
    using gen [of "''[Line '' @ ds @ '']''" post] by simp
  ultimately show ?thesis by simp
qed


text \<open>Line \<open>j + 1\<close> of the code exists and is neither empty nor comment-only.\<close>

definition meaningfulAt :: "string list \<Rightarrow> nat \<Rightarrow> bool" where
  "meaningfulAt codeLines j = (j < length codeLines \<and> isMeaningful (trim (codeLines ! j)))"

lemma lookAhead_found:
  "i \<le> j \<Longrightarrow> j < 5 \<Longrightarrow> meaningfulAt codeLines (lnum + j) \<Longrightarrow>
   (\<forall>j'. i \<le> j' \<and> j' < j \<longrightarrow> \<not> meaningfulAt codeLines (lnum + j')) \<Longrightarrow>
   lookAhead codeLines (int lnum) fin i = int (lnum + j)"
proof (induction "j - i" arbitrary: i)
  case 0
  then have "i = j" by simp
  with 0 show ?case
    by (subst lookAhead.simps) (auto simp: meaningfulAt_def Let_def nat_add_distrib)
next
  case (Suc d)
  then have ij: "i < j" by simp
  with Suc.prems have nm: "\<not> meaningfulAt codeLines (lnum + i)" by simp
  from Suc.prems(3) ij have inr: "lnum + i < length codeLines" by (simp add: meaningfulAt_def)
  have "lookAhead codeLines (int lnum) fin i = lookAhead codeLines (int lnum) fin (i + 1)"
    using ij Suc.prems(2) nm inr
    by (subst lookAhead.simps) (auto simp: meaningfulAt_def Let_def nat_add_distrib)
  also have "\<dots> = int (lnum + j)"
    using Suc.hyps(2) Suc.prems ij by (intro Suc.hyps(1)) auto
  finally show ?case .
qed

lemma lookAhead_none:
  "(\<forall>j. i \<le> j \<and> j < 5 \<longrightarrow> \<not> meaningfulAt codeLines (lnum + j)) \<Longrightarrow>
   lookAhead codeLines (int lnum) fin i = fin"
proof (induction "5 - i" arbitrary: i)
  case 0
  then show ?case by (subst lookAhead.simps) simp
next
  case (Suc d)
  then have i5: "i < 5" by simp
  with Suc.prems have nm: "\<not> meaningfulAt codeLines (lnum + i)" by simp
  show ?case
  proof (cases "lnum + i < length codeLines")
    case False
    then show ?thesis using i5 by (subst lookAhead.simps) (auto simp: Let_def)
  next
    case True
    have "lookAhead codeLines (int lnum) fin i = lookAhead codeLines (int lnum) fin (i + 1)"
      using i5 nm True
      by (subst lookAhead.simps) (auto simp: meaningfulAt_def Let_def nat_add_distrib)
    also have "\<dots> = fin"
      using Suc.hyps(2) Suc.prems by (intro Suc.hyps(1)) auto
    finally show ?thesis .
  qed
qed

lemma parseInt_digits:
  assumes "ds \<noteq> []" "\<forall>c \<in> set ds. isDigit c"
  shows "parseInt ds = Some (int (digitsVal ds))"
proof -
  obtain d ds' where dd: "ds = d # ds'" using assms(1) by (cases ds) auto
  then have d: "isDigit d" using assms(2) by simp
  then have nsp: "\<not> isSpace d" by (rule digit_not_space)
  from d have sign: "d \<noteq> CHR ''-''" "d \<noteq> CHR ''+''" by (auto simp: isDigit_def)
  have tw: "takeWhile isDigit ds = ds" using assms(2) by (simp add: takeWhile_eq_all_conv)
  show ?thesis
    using nsp sign tw assms(1) by (simp add: parseInt_def dd)
qed

lemma markersOf_mem:
  "(m, k) \<in> set ms \<Longrightarrow> parseIntOpt (pick k) = Some v \<Longrightarrow>
     \<lparr> markerText = m, lineNumber = v - 1 \<rparr> \<in> set (markersOf pick ms)"
  by (force simp: markersOf_def)

text \<open>
  Claim C5, amended. Let the narration, once its tags are stripped, contain an explicit
  reference \<open>[Line N]\<close> with \<open>1 \<le> N \<le>\<close> the line count of a non-empty reference
  code. Extraction yields a marker for it. Its zero-based line number is \<open>N - 1\<close> when
  line \<open>N\<close> is non-empty and not comment-only. When line \<open>N\<close> is empty or comment-only,
  the marker is remapped forward to the nearest non-empty, non-comment line among the
  next four lines, if there is one; otherwise it stays at \<open>N - 1\<close>. It is never moved
  backward.
\<close>

theorem explicit_reference_marker:
  assumes clean: "cleanSSML narration = pre @ ''[Line '' @ ds @ '']'' @ post"
      and ds: "ds \<noteq> []" "\<forall>c \<in> set ds. isDigit c"
      and code: "code \<noteq> []" "codeLines = splitOn CHR 0x0A code"
      and range: "1 \<le> digitsVal ds" "digitsVal ds \<le> length codeLines"
      and lnum: "lnum = digitsVal ds - 1"
  shows "\<exists>m \<in> set (extractLineReferences narration (Some code)).
           markerText m = ''[Line '' @ ds @ '']'' \<and>
           (meaningfulAt codeLines lnum \<longrightarrow> lineNumber m = int lnum) \<and>
           (\<forall>j<5. meaningfulAt codeLines (lnum + j) \<and> (\<forall>i<j. \<not> meaningfulAt codeLines (lnum + i))
                     \<longrightarrow> lineNumber m = int (lnum + j)) \<and>
           ((\<forall>j<5. \<not> meaningfulAt codeLines (lnum + j)) \<longrightarrow> lineNumber m = int lnum) \<and>
           int lnum \<le> lineNumber m \<and> lineNumber m \<le> int lnum + 4"
proof -
  let ?ref = "''[Line '' @ ds @ '']''"
  let ?primary = "markersOf (\<lambda>k. orElse (group k 1) (group k 2)) (execAll lineRegex None (cleanSSML narration))"
  let ?m0 = "\<lparr> markerText = ?ref, lineNumber = int (digitsVal ds) - 1 \<rparr>"
  obtain c cs where cc: "code = c # cs" using code(1) by (cases code) auto
  obtain d ds' where dd: "ds = d # ds'" using ds(1) by (cases ds) auto
  have "(?ref, [(1, ds)]) \<in> set (execAll lineRegex None (cleanSSML narration))"
    unfolding clean by (rule execAll_bracket [OF ds])
  moreover have "parseIntOpt (orElse (group [(1, ds)] 1) (group [(1, ds)] 2)) = Some (int (digitsVal ds))"
    using parseInt_digits [OF ds] by (simp add: group_def orElse_def parseIntOpt_def dd)
  ultimately have m0: "?m0 \<in> set ?primary"
    by (rule markersOf_mem)
  then have ne: "?primary \<noteq> []" by auto
  have res: "extractLineReferences narration (Some code) = map (validateMarker codeLines) ?primary"
    using ne by (simp add: extractLineReferences_def Let_def cc code(2))
  let ?m = "validateMarker codeLines ?m0"
  have lnrange: "int (digitsVal ds) - 1 = int lnum" "lnum < length codeLines"
    using range lnum by auto
  have vm: "?m = \<lparr> markerText = ?ref, lineNumber = lookAhead codeLines (int lnum) (int lnum) 0 \<rparr>"
    using lnrange by (simp add: validateMarker_def Let_def)
  have mem: "?m \<in> set (extractLineReferences narration (Some code))"
    unfolding res using m0 by simp
  have found: "lineNumber ?m = int (lnum + j)"
    if "j < 5" "meaningfulAt codeLines (lnum + j)" "\<forall>i<j. \<not> meaningfulAt codeLines (lnum + i)" for j
    unfolding vm using lookAhead_found [of 0 j codeLines lnum "int lnum"] that by simp
  have unchanged: "lineNumber ?m = int lnum" if "\<forall>j<5. \<not> meaningfulAt codeLines (lnum + j)"
    unfolding vm using lookAhead_none [of 0 codeLines lnum "int lnum"] that by simp
  have same: "lineNumber ?m = int lnum" if "meaningfulAt codeLines lnum"
    using found [of 0] that by simp
  have mtxt: "markerText ?m = ?ref" unfolding vm by simp
  have bounds: "int lnum \<le> lineNumber ?m \<and> lineNumber ?m \<le> int lnum + 4"
  proof (cases "\<exists>j. j < 5 \<and> meaningfulAt codeLines (lnum + j)")
    case True
    define j where "j = (LEAST j. j < 5 \<and> meaningfulAt codeLines (lnum + j))"
    have j: "j < 5 \<and> meaningfulAt codeLines (lnum + j)"
      unfolding j_def using True by (rule LeastI_ex)
    have "\<forall>i<j. \<not> meaningfulAt codeLines (lnum + i)"
    proof (intro allI impI)
      fix i assume "i < j"
      then have "\<not> (i < 5 \<and> meaningfulAt codeLines (lnum + i))"
        unfolding j_def by (rule not_less_Least)
      with \<open>i < j\<close> j show "\<not> meaningfulAt codeLines (lnum + i)" by simp
    qed
    with j have "lineNumber ?m = int (lnum + j)" by (intro found) auto
    with j show ?thesis by simp
  next
    case False
    then have "lineNumber ?m = int lnum" by (intro unchanged) auto
    then show ?thesis by simp
  qed
  show ?thesis
    using mem mtxt same found unchanged bounds by (intro bexI [of _ ?m]) blast+
qed

text \<open>Sample codes, written line by line.\<close>

definition joinLines :: "string list \<Rightarrow> string" where
  "joinLines ls = (case ls of [] \<Rightarrow> [] | l # rest \<Rightarrow> l @ concat (map (\<lambda>x. CHR 0x0A # x) rest))"

definition documentedCode :: string where
  "documentedCode = joinLines
     [''/*'',
      '' * Adds two numbers.'',
      '' *'',
      '' * a: the first number'',
      '' * b: the second number'',
      '' */'',
      ''function add(a, b) { return a + b; }'']"

text \<open>
  Claim C5, as stated, fails: line 1 of this code is comment-only and the nearest
  following non-empty, non-comment line is line 7, but the marker of \<open>[Line 1]\<close> stays
  at the zero-based line 0: the look-ahead stops after five lines.
\<close>

theorem explicit_reference_marker_counterexample:
  "map (isMeaningful \<circ> trim) (splitOn CHR 0x0A documentedCode)
     = [False, False, False, False, False, False, True]
   \<and> extractLineReferences ''[Line 1] opens the function.'' (Some documentedCode)
     = [\<lparr> markerText = ''[Line 1]'', lineNumber = 0 \<rparr>]"
  by code_simp

definition smallCode :: string where
  "smallCode = joinLines [''// setup'', [], ''let x = 1;'', ''let y = 2;'']"

text \<open>A reference to a comment line, remapped two lines forward.\<close>

theorem explicit_reference_marker_witness:
  "cleanSSML ''First <break time=1s/>[Line 1] declares x.''
     = ''First , '' @ ''[Line '' @ ''1'' @ '']'' @ '' declares x.''
   \<and> 1 \<le> digitsVal ''1'' \<and> digitsVal ''1'' \<le> length (splitOn CHR 0x0A smallCode)
   \<and> \<not> meaningfulAt (splitOn CHR 0x0A smallCode) 0
   \<and> \<not> meaningfulAt (splitOn CHR 0x0A smallCode) 1
   \<and> meaningfulAt (splitOn CHR 0x0A smallCode) 2
   \<and> (\<exists>m \<in> set (extractLineReferences ''First <break time=1s/>[Line 1] declares x.'' (Some smallCode)).
          markerText m = ''[Line 1]'' \<and> lineNumber m = 2)"
proof -
  let ?nar = "''First <break time=1s/>[Line 1] declares x.''"
  let ?lines = "splitOn CHR 0x0A smallCode"
  have h1: "cleanSSML ?nar = ''First , '' @ ''[Line '' @ ''1'' @ '']'' @ '' declares x.''"
    by code_simp
  have h2: "''1'' \<noteq> []" by simp
  have h3: "\<forall>c \<in> set ''1''. isDigit c" by (simp add: isDigit_def)
  have h4: "smallCode \<noteq> []" by code_simp
  have h5: "1 \<le> digitsVal ''1''" by code_simp
  have h6: "digitsVal ''1'' \<le> length ?lines" by code_simp
  have h7: "(0::nat) = digitsVal ''1'' - 1" by code_simp
  have m0: "\<not> meaningfulAt ?lines 0" by code_simp
  have m1: "\<not> meaningfulAt ?lines 1" by code_simp
  have m2: "meaningfulAt ?lines 2" by code_simp
  from explicit_reference_marker [OF h1 h2 h3 h4 refl h5 h6 h7]
  obtain m where m: "m \<in> set (extractLineReferences ?nar (Some smallCode))"
      "markerText m = ''[Line '' @ ''1'' @ '']''"
      "\<forall>j<5. meaningfulAt ?lines (0 + j) \<and> (\<forall>i<j. \<not> meaningfulAt ?lines (0 + i))
                     \<longrightarrow> lineNumber m = int (0 + j)"
    by blast
  have "\<forall>i<2. \<not> meaningfulAt ?lines (0 + i)"
    using m0 m1 by (auto simp: less_Suc_eq numeral_2_eq_2)
  with m(3) [rule_format, of 2] m2 have "lineNumber m = 2" by (simp add: numeral_2_eq_2)
  with m(1,2) have "\<exists>m \<in> set (extractLineReferences ?nar (Some smallCode)).
          markerText m = ''[Line 1]'' \<and> lineNumber m = 2" by auto
  with h1 h5 h6 m0 m1 m2 show ?thesis by blast
qed

section \<open>Synthesized markers\<close>

text \<open>A code of sixty lines, each \<open>x\<close>.\<close>

definition sixtyLines :: string where
  "sixtyLines = concat (replicate 59 (''x'' @ [CHR 0x0A])) @ ''x''"

lemma splitOn_nonempty: "splitOn c s \<noteq> []"
  by (induction s) (auto split: list.splits)

lemma synthetic_in_range:
  assumes "0 < len" "i < Suc n"
  shows "i * (len div Suc n) < len"
proof (cases "len div Suc n = 0")
  case True
  with assms show ?thesis by simp
next
  case False
  then have "i * (len div Suc n) < Suc n * (len div Suc n)"
    using assms(2) by (intro mult_strict_right_mono) auto
  also have "\<dots> \<le> len" by (rule times_div_less_eq_dividend)
  finally show ?thesis .
qed

lemma concat_map_singleton_if:
  "(\<forall>x \<in> set xs. P x) \<Longrightarrow> concat (map (\<lambda>x. if P x then [f x] else []) xs) = map f xs"
  by (induction xs) auto

lemma syntheticMarkers_eq:
  assumes "codeLines \<noteq> []"
  shows "syntheticMarkers codeLines =
         map (\<lambda>i. \<lparr> markerText = ''Synthetic marker '' @ showNat i,
                     lineNumber = int (i * (length codeLines div (min 8 (max 3 (length codeLines div 15)) + 1))) \<rparr>)
             [1 ..< min 8 (max 3 (length codeLines div 15)) + 1]"
proof -
  let ?len = "length codeLines"
  let ?n = "min 8 (max 3 (?len div 15))"
  have len: "0 < ?len" using assms by simp
  have "\<forall>i \<in> set [1 ..< ?n + 1]. i * (?len div (?n + 1)) < ?len"
    using synthetic_in_range [OF len] by auto
  then show ?thesis
    unfolding syntheticMarkers_def Let_def
    by (rule concat_map_singleton_if)
qed

text \<open>
  Claim C6, as stated, fails: for a narration without any line reference and a code of
  sixty lines, extraction returns four markers (at the zero-based lines 12, 24, 36
  and 48), not three.
\<close>

theorem synthetic_fallback_markers_counterexample:
  "execAll lineRegex None (cleanSSML ''This code adds two numbers.'') = []
   \<and> execAll fallbackRegex None (cleanSSML ''This code adds two numbers.'') = []
   \<and> map lineNumber (extractLineReferences ''This code adds two numbers.'' (Some sixtyLines))
       = [12, 24, 36, 48]"
  by code_simp

text \<open>
  Claim C6, amended. For every narration in which neither the primary nor the lenient
  pattern finds a line reference, and every non-empty reference code of \<open>len\<close> lines,
  extraction returns exactly \<open>n = min 8 (max 3 (len div 15))\<close> synthesized markers,
  the \<open>i\<close>-th (from 1) at the zero-based line \<open>i * (len div (n + 1))\<close>, counted over all
  lines of the code; \<open>n\<close> is 3 for a code of fewer than 60 lines.
\<close>

theorem synthetic_fallback_markers:
  assumes "execAll lineRegex None (cleanSSML narration) = []"
      and "execAll fallbackRegex None (cleanSSML narration) = []"
      and "code \<noteq> []"
      and "len = length (splitOn CHR 0x0A code)"
      and "n = min 8 (max 3 (len div 15))"
  shows "extractLineReferences narration (Some code) =
           map (\<lambda>i. \<lparr> markerText = ''Synthetic marker '' @ showNat i,
                       lineNumber = int (i * (len div (n + 1))) \<rparr>) [1 ..< n + 1]
         \<and> length (extractLineReferences narration (Some code)) = n
         \<and> (len < 60 \<longrightarrow> n = 3)"
proof -
  obtain c cs where code: "code = c # cs" using assms(3) by (cases code) auto
  have "extractLineReferences narration (Some code) = syntheticMarkers (splitOn CHR 0x0A code)"
    using assms(1,2) by (simp add: extractLineReferences_def markersOf_def code)
  then have eq: "extractLineReferences narration (Some code) =
           map (\<lambda>i. \<lparr> markerText = ''Synthetic marker '' @ showNat i,
                       lineNumber = int (i * (len div (n + 1))) \<rparr>) [1 ..< n + 1]"
    using syntheticMarkers_eq [OF splitOn_nonempty, of "CHR 0x0A" code] assms(4,5) by simp
  have "len < 60 \<longrightarrow> n = 3" using assms(5) by auto
  with eq show ?thesis by simp
qed

theorem synthetic_fallback_markers_witness:
  "execAll lineRegex None (cleanSSML ''This code adds two numbers.'') = []
   \<and> execAll fallbackRegex None (cleanSSML ''This code adds two numbers.'') = []
   \<and> length (splitOn CHR 0x0A ''let a = 1;'') = 1
   \<and> extractLineReferences ''This code adds two numbers.'' (Some ''let a = 1;'') =
        map (\<lambda>i. \<lparr> markerText = ''Synthetic marker '' @ showNat i,
                    lineNumber = int (i * (1 div (3 + 1))) \<rparr>) [1 ..< 3 + 1]
   \<and> length (extractLineReferences ''This code adds two numbers.'' (Some ''let a = 1;'')) = 3"
proof -
  have h1: "execAll lineRegex None (cleanSSML ''This code adds two numbers.'') = []"
    by code_simp
  have h2: "execAll fallbackRegex None (cleanSSML ''This code adds two numbers.'') = []"
    by code_simp
  have h3: "''let a = 1;'' \<noteq> []" by simp
  have h4: "(1::nat) = length (splitOn CHR 0x0A ''let a = 1;'')" by code_simp
  have h5: "(3::nat) = min 8 (max 3 (1 div 15))" by simp
  show ?thesis
    using synthetic_fallback_markers [OF h1 h2 h3 h4 h5] h1 h2 h4 by simp
qed

section \<open>The remote path never throws\<close>

lemma startsWith_append [simp]: "startsWith (a @ b) a"
  by (induction a) auto

lemma fallbackId_prefix: "startsWith (fallbackId w) ''tts-fallback-''"
  unfolding fallbackId_def by (rule startsWith_append)

lemma failWith_prefix: "startsWith (fst (failWith reason w)) ''tts-fallback-''"
  by (simp add: failWith_def Let_def fallbackId_prefix)

lemma failWith_cases:
  obtains s w' where "failWith reason w = (s, w')" "startsWith s ''tts-fallback-''"
  using failWith_prefix [of reason w] by (cases "failWith reason w") auto

lemma synthesizeSpeechStart_settled:
  assumes "synthesizeSpeechStart text0 voice code w = (Some r, w')"
  shows "\<exists>s. r = Inr s \<and> startsWith s ''tts-fallback-''"
proof -
  obtain s1 w1 where f: "failWith ''window is not defined'' w = (s1, w1)"
    "startsWith s1 ''tts-fallback-''" by (rule failWith_cases)
  from assms show ?thesis
    by (auto simp: synthesizeSpeechStart_def Let_def f fallbackId_prefix split: if_splits)
qed

lemma afterFetch_result:
  assumes "afterFetch outcome w = (Inr s, w')"
  shows "startsWith s ''tts-fallback-'' \<or>
         (\<exists>b a. outcome = Json b \<and> success b \<and> audio b = Some a \<and> a \<noteq> [] \<and> s = padBase64 a
                \<and> test base64Regex s \<and> atob (substring s 0 100) \<noteq> None)"
proof (cases outcome)
  case (HttpError st body)
  with assms failWith_prefix show ?thesis
    by (auto simp: afterFetch_def map_prod_def split: prod.splits) (metis fst_conv)
next
  case NotJson
  with assms failWith_prefix show ?thesis
    by (auto simp: afterFetch_def map_prod_def split: prod.splits) (metis fst_conv)
next
  case (Json b)
  show ?thesis
  proof (cases "success b \<and> truthyStr (audio b) \<and> length (the (audio b)) > 0")
    case False
    with assms Json failWith_prefix show ?thesis
      by (auto simp: afterFetch_def map_prod_def split: prod.splits if_splits) (metis fst_conv)+
  next
    case True
    then obtain a where a: "audio b = Some a" "a \<noteq> []"
      by (auto simp: truthyStr_def split: option.splits list.splits)
    show ?thesis
    proof (cases "test base64Regex (padBase64 a) \<and> atob (substring (padBase64 a) 0 100) \<noteq> None")
      case True
      with assms Json a \<open>success b \<and> _\<close> show ?thesis
        by (auto simp: afterFetch_def Let_def)
    next
      case False
      with assms Json a \<open>success b \<and> _\<close> failWith_prefix show ?thesis
        by (auto simp: afterFetch_def Let_def map_prod_def split: prod.splits if_splits option.splits)
           (metis fst_conv)+
    qed
  qed
qed (use assms in \<open>auto simp: afterFetch_def\<close>)

lemma synthesizeSpeechResume_result:
  "\<exists>s. fst (synthesizeSpeechResume outcome w) = Inr s \<and>
       (startsWith s ''tts-fallback-'' \<or>
        (\<exists>b a. outcome = Json b \<and> success b \<and> audio b = Some a \<and> a \<noteq> [] \<and> s = padBase64 a
               \<and> test base64Regex s \<and> atob (substring s 0 100) \<noteq> None))"
proof (cases "afterFetch outcome w")
  case (Pair r w')
  show ?thesis
  proof (cases r)
    case (Inl e)
    obtain msg where e: "e = JsError msg" by (cases e) auto
    obtain s1 w1 where f: "failWith msg w' = (s1, w1)" "startsWith s1 ''tts-fallback-''"
      by (rule failWith_cases)
    with Pair Inl e show ?thesis by (simp add: synthesizeSpeechResume_def)
  next
    case (Inr s)
    with Pair afterFetch_result [of outcome w s w'] show ?thesis
      by (simp add: synthesizeSpeechResume_def)
  qed
qed

text \<open>
  Claim C10. \<open>synthesizeSpeech\<close> resolves to a string and never rejects. Where it
  settles without a request, the string is a fallback id. Where it settles on the answer
  to its request, whatever the answer (the request failed, a status that is not 2xx, a
  body that cannot be read or is not JSON, audio that is missing or not base64), the
  result is a string that begins with \<open>tts-fallback-\<close>, unless the answer carried audio
  that passed the checks, which is then the result.
\<close>

theorem synthesizeSpeech_never_rejects:
  "(case synthesizeSpeechStart text0 voice code w of
      (Some r, w') \<Rightarrow> (\<exists>s. r = Inr s \<and> startsWith s ''tts-fallback-'')
    | (None, w') \<Rightarrow> True)
   \<and> (\<exists>s. fst (synthesizeSpeechResume outcome w) = Inr s \<and>
         (startsWith s ''tts-fallback-'' \<or>
          (\<exists>b a. outcome = Json b \<and> success b \<and> audio b = Some a \<and> a \<noteq> [] \<and> s = padBase64 a
                 \<and> test base64Regex s \<and> atob (substring s 0 100) \<noteq> None)))"
proof -
  have "case synthesizeSpeechStart text0 voice code w of
      (Some r, w') \<Rightarrow> (\<exists>s. r = Inr s \<and> startsWith s ''tts-fallback-'')
    | (None, w') \<Rightarrow> True"
    using synthesizeSpeechStart_settled [of text0 voice code w]
    by (cases "synthesizeSpeechStart text0 voice code w") (auto split: option.splits)
  with synthesizeSpeechResume_result [of outcome w] show ?thesis by blast
qed

section \<open>The size guard\<close>

text \<open>
  Text made of plain letters goes through \<open>textToSSML\<close> unchanged, so the markup around
  \<open>n\<close> letters is at least \<open>n\<close> bytes long.
\<close>

lemma trim_Nil [simp]: "trim [] = []"
  by (simp add: trim_def)

lemma trim_nonempty:
  assumes "x \<in> set s" "\<not> isSpace x"
  shows "trim s \<noteq> []"
proof -
  let ?d = "dropWhile isSpace s"
  have d: "?d \<noteq> []" using assms by (auto simp: dropWhile_eq_Nil_conv)
  then have "\<not> isSpace (hd ?d)" by (rule hd_dropWhile)
  moreover have "hd ?d \<in> set (rev ?d)" using d by simp
  ultimately have "dropWhile isSpace (rev ?d) \<noteq> []"
    by (auto simp: dropWhile_eq_Nil_conv)
  then show ?thesis by (simp add: trim_def)
qed

lemma matchHere_Nil [simp]: "matchHere r p [] = None"
  by (auto simp: matchHere_def split: list.splits)

definition neverStarts :: "rx \<Rightarrow> char \<Rightarrow> bool" where
  "neverStarts r x = (\<forall>p rest. matchHere r p (x # rest) = None)"

lemma replaceAll_no_match:
  "\<forall>x \<in> set s. neverStarts r x \<Longrightarrow> replaceAll r f p s = s"
proof (induction s arbitrary: p)
  case Nil
  show ?case by (subst replaceAll.simps) simp
next
  case (Cons x xs)
  have "matchHere r p (x # xs) = None" using Cons.prems by (simp add: neverStarts_def)
  then have "replaceAll r f p (x # xs) = x # replaceAll r f (Some x) xs"
    by (subst replaceAll.simps) simp
  also have "replaceAll r f (Some x) xs = xs"
    by (rule Cons.IH) (simp add: Cons.prems)
  finally show ?case .
qed

lemma replace_no_match:
  "\<forall>x \<in> set s. neverStarts r x \<Longrightarrow> replace r t s = s"
  unfolding replace_def by (rule replaceAll_no_match)

lemma neverStarts_lit: "x \<noteq> c \<Longrightarrow> neverStarts (RLit c) x"
  by (simp add: neverStarts_def matchHere_def)

lemma neverStarts_lit_seq: "x \<noteq> c \<Longrightarrow> neverStarts (RSeq (RLit c) r) x"
  by (simp add: neverStarts_def matchHere_def)

lemma escapeXml_letters: "escapeXml (replicate n CHR ''a'') = replicate n CHR ''a''"
  unfolding escapeXml_def comp_def
  by (simp add: replace_no_match neverStarts_lit)

lemma addPauses_letters: "addPauses (replicate n CHR ''a'') = replicate n CHR ''a''"
  unfolding addPauses_def comp_def
  by (simp add: replace_no_match neverStarts_lit_seq)

lemma keyword_letters:
  "replaceAll keywordRegex f None (replicate n CHR ''a'') = replicate n CHR ''a''"
  by (rule replaceAll_no_match) (simp add: neverStarts_def matchHere_def keywordRegex_def)

lemma backtick_letters:
  "replaceAll backtickRegex f None (replicate n CHR ''a'') = replicate n CHR ''a''"
  by (rule replaceAll_no_match) (simp add: neverStarts_def matchHere_def backtickRegex_def)

lemma utf8Length_append [simp]: "utf8Length (a @ b) = utf8Length a + utf8Length b"
  by (simp add: utf8Length_def)

lemma utf8Length_letters: "utf8Length (replicate n CHR ''a'') = n"
  by (induction n) (simp_all add: utf8Length_def)

lemma textToSSML_letters:
  "textToSSML (replicate n CHR ''a'')
     = ''<speak><prosody rate='' @ [CHR 0x22] @ ''0.95'' @ [CHR 0x22] @ ''>'' @ replicate n CHR ''a''
       @ ''</prosody></speak>''"
  by (simp add: textToSSML_def escapeXml_letters addPauses_letters keyword_letters backtick_letters)

lemma wrappedSSML_letters_size: "n \<le> utf8Length (wrappedSSML (replicate n CHR ''a'') None)"
proof -
  let ?ssml = "textToSSML (replicate n CHR ''a'')"
  have a: "n \<le> utf8Length ?ssml"
    unfolding textToSSML_letters utf8Length_append utf8Length_letters by simp
  have "wrappedSSML (replicate n CHR ''a'') None = ?ssml
        \<or> wrappedSSML (replicate n CHR ''a'') None = ''<speak>'' @ ?ssml @ ''</speak>''"
    by (simp add: wrappedSSML_def Let_def)
  then show ?thesis
  proof
    assume "wrappedSSML (replicate n CHR ''a'') None = ?ssml"
    with a show ?thesis by simp
  next
    assume b: "wrappedSSML (replicate n CHR ''a'') None = ''<speak>'' @ ?ssml @ ''</speak>''"
    have "utf8Length ?ssml \<le> utf8Length (''<speak>'' @ ?ssml @ ''</speak>'')"
      by (simp only: utf8Length_append)
    with a show ?thesis unfolding b by (rule order_trans)
  qed
qed

lemma updState_frame [simp]:
  "requests (updState f w) = requests w" "clock (updState f w) = clock w"
  "timers (updState f w) = timers w" "windowDefined (updState f w) = windowDefined w"
  "hasSpeechSynthesis (updState f w) = hasSpeechSynthesis w"
  "speechState (updState f w) = f (speechState w)"
  by (simp_all add: updState_def)

lemma callOnFinish_frame [simp]:
  "requests (callOnFinish w) = requests w" "clock (callOnFinish w) = clock w"
  "timers (callOnFinish w) = timers w" "speechState (callOnFinish w) = speechState w"
  by (simp_all add: callOnFinish_def split: option.splits)

lemma setTimeout_frame [simp]:
  "requests (snd (setTimeout b d w)) = requests w" "clock (snd (setTimeout b d w)) = clock w"
  "windowDefined (snd (setTimeout b d w)) = windowDefined w"
  "hasSpeechSynthesis (snd (setTimeout b d w)) = hasSpeechSynthesis w"
  "speechState (snd (setTimeout b d w)) = speechState w"
  by (simp_all add: setTimeout_def Let_def)

lemma setTimeout_timers:
  "timers (snd (setTimeout b d w))
     = timers w @ [\<lparr> timerId = nextTimerId w, due = clock w + max 0 \<lfloor>d\<rfloor>, body = b \<rparr>]"
  by (simp add: setTimeout_def Let_def)

lemma armAll_frame_all:
  "requests (snd (armAll bs w)) = requests w \<and> clock (snd (armAll bs w)) = clock w
   \<and> windowDefined (snd (armAll bs w)) = windowDefined w
   \<and> hasSpeechSynthesis (snd (armAll bs w)) = hasSpeechSynthesis w
   \<and> speechState (snd (armAll bs w)) = speechState w"
proof (induction bs arbitrary: w)
  case Nil
  show ?case by simp
next
  case (Cons b bs)
  obtain bd d where b: "b = (bd, d)" by (cases b) auto
  from Cons [of "snd (setTimeout bd d w)"] show ?case
    by (simp add: b split_beta Let_def)
qed

lemma armAll_frame [simp]:
  "requests (snd (armAll bs w)) = requests w" "clock (snd (armAll bs w)) = clock w"
  "windowDefined (snd (armAll bs w)) = windowDefined w"
  "hasSpeechSynthesis (snd (armAll bs w)) = hasSpeechSynthesis w"
  "speechState (snd (armAll bs w)) = speechState w"
  using armAll_frame_all [of bs w] by simp_all

lemma armAll_timers: "\<exists>ts. timers (snd (armAll bs w)) = timers w @ ts"
proof (induction bs arbitrary: w)
  case Nil
  show ?case by simp
next
  case (Cons b bs)
  obtain bd d where b: "b = (bd, d)" by (cases b) auto
  from Cons [of "snd (setTimeout bd d w)"] obtain ts where
    "timers (snd (armAll bs (snd (setTimeout bd d w)))) = timers (snd (setTimeout bd d w)) @ ts"
    by blast
  then show ?case
    by (simp add: b split_beta Let_def setTimeout_timers)
qed

text \<open>What the local fallback leaves alone, and the watchdog it arms.\<close>

lemma armFailSafe_frame [simp]:
  "requests (armFailSafe ms w) = requests w" "clock (armFailSafe ms w) = clock w"
  by (simp_all add: armFailSafe_def)

lemma startUtterance_frame [simp]:
  "requests (snd (startUtterance t ms w)) = requests w"
  "clock (snd (startUtterance t ms w)) = clock w"
  by (simp_all add: startUtterance_def Let_def split_beta)

lemma startUtterance_timers: "\<exists>ts. timers (snd (startUtterance t ms w)) = timers w @ ts"
  using armAll_timers by (simp add: startUtterance_def Let_def split_beta)

lemma useBrowserSpeechAPI_frame [simp]:
  "requests (snd (useBrowserSpeechAPI t ms w)) = requests w"
  "clock (snd (useBrowserSpeechAPI t ms w)) = clock w"
  by (simp_all add: useBrowserSpeechAPI_def Let_def split_beta)

lemma useBrowserSpeechAPI_watchdog:
  "\<exists>x \<in> set (timers (snd (useBrowserSpeechAPI t ms w))).
      body x = FinishTimer \<and> due x = clock w + 15000"
proof -
  define w1 where "w1 = armFailSafe ms w"
  define w2 where "w2 = snd (setTimeout FinishTimer 15000 w1)"
  define x where "x = \<lparr> timerId = nextTimerId w1, due = clock w + 15000, body = FinishTimer \<rparr>"
  have "x \<in> set (timers w2)"
    by (simp add: w2_def w1_def x_def setTimeout_timers)
  moreover have "\<exists>ts. timers (snd (useBrowserSpeechAPI t ms w)) = timers w2 @ ts"
    using startUtterance_timers [of t ms w2]
    by (auto simp: useBrowserSpeechAPI_def Let_def split_beta w1_def [symmetric] w2_def [symmetric])
  moreover have "body x = FinishTimer \<and> due x = clock w + 15000" by (simp add: x_def)
  ultimately show ?thesis by auto
qed

lemma stop_frame [simp]:
  "requests (stop w) = requests w" "clock (stop w) = clock w"
  by (auto simp: stop_def Let_def split: option.splits playing.splits)

lemma speakSettled_fallback:
  assumes "startsWith s ''tts-fallback-''"
  shows "speakSettled (Inr s) t ms w
         = (True, updState (resetErrorState (clock w)) (snd (useBrowserSpeechAPI t ms w)))"
  using assms by (simp add: speakSettled_def Let_def)

text \<open>
  Claim C7. When the markup to be sent is longer than 5000 bytes, \<open>synthesizeSpeech\<close>
  settles at once on a fallback id: no request is made and nothing else changes. A
  \<open>speak\<close> of such a (non-blank) text therefore resolves without any request, with the
  local fallback started: its 15-second fail-safe timer is armed.
\<close>

theorem size_guard:
  assumes "utf8Length (wrappedSSML text0 code) > 5000"
  shows "synthesizeSpeechStart text0 voice code w = (Some (Inr (fallbackId w)), w)
       \<and> (code = None \<and> trim text0 \<noteq> [] \<longrightarrow>
            fst (speak text0 onLine onFin v codeContent w) = Resolved True
          \<and> requests (snd (speak text0 onLine onFin v codeContent w)) = requests w
          \<and> (\<exists>x \<in> set (timers (snd (speak text0 onLine onFin v codeContent w))).
                body x = FinishTimer \<and> due x = clock w + 15000))"
proof -
  have start: "synthesizeSpeechStart text0 vo code w0 = (Some (Inr (fallbackId w0)), w0)" for vo w0
    using assms by (simp add: synthesizeSpeechStart_def Let_def)
  have "fst (speak text0 onLine onFin v codeContent w) = Resolved True
          \<and> requests (snd (speak text0 onLine onFin v codeContent w)) = requests w
          \<and> (\<exists>x \<in> set (timers (snd (speak text0 onLine onFin v codeContent w))).
                body x = FinishTimer \<and> due x = clock w + 15000)"
    if code: "code = None" and ne: "trim text0 \<noteq> []"
  proof -
    from ne have ne': "text0 \<noteq> []" by auto
    define w1 where "w1 = updState (\<lambda>s. s\<lparr> isPlaying := False, currentUtterance := None,
                                lineNumberCallback := onLine,
                                onFinishCallback := onFin, hasError := Some False \<rparr>) (stop w)"
    define ms where "ms = extractLineReferences text0 codeContent"
    have c1: "clock w1 = clock w" "requests w1 = requests w" by (simp_all add: w1_def)
    have sp: "speak text0 onLine onFin v codeContent w
              = (Resolved True, snd (useBrowserSpeechAPI text0 ms w1))
            \<or> speak text0 onLine onFin v codeContent w
              = (Resolved True, updState (resetErrorState (clock w1)) (snd (useBrowserSpeechAPI text0 ms w1)))"
    proof (cases "shouldUseFallbackDirectly (clock w1) (speechState w1)")
      case True
      with ne ne' show ?thesis
        by (simp add: speak_def Let_def w1_def [symmetric] ms_def [symmetric])
    next
      case False
      with ne ne' start [unfolded code] show ?thesis
        by (simp add: speak_def Let_def w1_def [symmetric] ms_def [symmetric]
              speakSettled_fallback fallbackId_prefix)
    qed
    from useBrowserSpeechAPI_watchdog [of text0 ms w1] c1
    have wd: "\<exists>x \<in> set (timers (snd (useBrowserSpeechAPI text0 ms w1))).
                body x = FinishTimer \<and> due x = clock w + 15000" by simp
    from sp show ?thesis
    proof
      assume "speak text0 onLine onFin v codeContent w
              = (Resolved True, snd (useBrowserSpeechAPI text0 ms w1))"
      with wd c1 show ?thesis by simp
    next
      assume "speak text0 onLine onFin v codeContent w
              = (Resolved True, updState (resetErrorState (clock w1)) (snd (useBrowserSpeechAPI text0 ms w1)))"
      with wd c1 show ?thesis by simp
    qed
  qed
  with start show ?thesis by blast
qed

text \<open>A word of 5001 letters.\<close>

definition longWord :: string where
  "longWord = replicate 5001 CHR ''a''"

theorem size_guard_witness:
  "utf8Length (wrappedSSML longWord None) > 5000
   \<and> synthesizeSpeechStart longWord defaultVoice None world0 = (Some (Inr ''tts-fallback-0''), world0)
   \<and> fst (speak longWord (Some 1) (Some 2) None None world0) = Resolved True
   \<and> requests (snd (speak longWord (Some 1) (Some 2) None None world0)) = []"
proof -
  have big: "utf8Length (wrappedSSML longWord None) > 5000"
    using wrappedSSML_letters_size [of 5001] by (simp add: longWord_def)
  have "CHR ''a'' \<in> set longWord" by (simp add: longWord_def)
  then have ne: "trim longWord \<noteq> []"
    by (rule trim_nonempty) (simp add: isSpace_def)
  have fid: "fallbackId world0 = ''tts-fallback-0''"
    by code_simp
  have rq: "requests world0 = []" "clock world0 = 0" by (simp_all add: world0_def)
  from size_guard [OF big, of defaultVoice world0 "Some 1" "Some 2" None None] ne fid rq big
  show ?thesis by simp
qed

section \<open>The boolean of speak\<close>

lemma speakSettled_Inr: "fst (speakSettled (Inr s) text0 markers w) = True"
  by (simp add: speakSettled_def Let_def)

lemma synthesizeSpeechResume_Inr: "\<exists>s. fst (synthesizeSpeechResume outcome w) = Inr s"
  using synthesizeSpeechResume_result [of outcome w] by blast

lemma fetchSettled_true:
  assumes "i < length (pending w)" "\<not> pendingDone (pending w ! i)"
  shows "fst (fetchSettled i outcome w) = Some True"
proof -
  obtain r w1 where r: "synthesizeSpeechResume outcome w = (r, w1)"
    by (cases "synthesizeSpeechResume outcome w") auto
  with synthesizeSpeechResume_Inr [of outcome w] obtain s where s: "r = Inr s" by auto
  obtain b w2 where b: "speakSettled r (pendingText (pending w ! i)) (pendingMarkers (pending w ! i)) w1 = (b, w2)"
    by (cases "speakSettled r (pendingText (pending w ! i)) (pendingMarkers (pending w ! i)) w1") auto
  with speakSettled_Inr [of s "pendingText (pending w ! i)" "pendingMarkers (pending w ! i)" w1] s
  have "b = True" by simp
  with assms r b show ?thesis by (simp add: fetchSettled_def Let_def)
qed

lemma speak_cases:
  "case speak text0 onLine onFin v code w of
      (Resolved b, w') \<Rightarrow> b = (trim text0 \<noteq> [])
    | (Waiting i, w') \<Rightarrow> trim text0 \<noteq> [] \<and> i < length (pending w') \<and> \<not> pendingDone (pending w' ! i)"
proof (cases "trim text0 = []")
  case True
  then show ?thesis by (auto simp: speak_def Let_def)
next
  case False
  then have ne: "text0 \<noteq> []" by auto
  define w1 where "w1 = updState (\<lambda>s. s\<lparr> isPlaying := False, currentUtterance := None,
                                lineNumberCallback := onLine,
                                onFinishCallback := onFin, hasError := Some False \<rparr>) (stop w)"
  define voice where "voice = (case v of None \<Rightarrow> defaultVoice | Some v \<Rightarrow> v)"
  show ?thesis
  proof (cases "shouldUseFallbackDirectly (clock w1) (speechState w1)")
    case True
    with False ne show ?thesis by (simp add: speak_def Let_def w1_def)
  next
    case nofb: False
    obtain r w2 where st: "synthesizeSpeechStart text0 voice None w1 = (r, w2)"
      by (cases "synthesizeSpeechStart text0 voice None w1") auto
    show ?thesis
    proof (cases r)
      case None
      with st nofb False ne show ?thesis
        by (simp add: speak_def Let_def w1_def [symmetric] voice_def [symmetric] nth_append)
    next
      case (Some res)
      with st synthesizeSpeechStart_settled [of text0 voice None w1 res w2]
      obtain s where s: "res = Inr s" by auto
      obtain b w3 where b: "speakSettled res text0 (extractLineReferences text0 code) w2 = (b, w3)"
        by (cases "speakSettled res text0 (extractLineReferences text0 code) w2") auto
      with speakSettled_Inr [of s text0 "extractLineReferences text0 code" w2] s
      have "b = True" by simp
      with Some st nofb False ne b show ?thesis
        by (simp add: speak_def Let_def w1_def [symmetric] voice_def [symmetric])
    qed
  qed
qed

text \<open>
  Claim C8, as the code has it. The boolean that \<open>speak\<close> resolves to is false exactly
  when the text is empty or blank. For any other text the call either resolves to true
  at once (the local fallback was started without a request), or waits for the answer to
  its request, and then resolves to true whatever the answer is: whether the audio of the
  remote service is played or the local fallback is used. No other value reaches the
  caller.
\<close>

theorem speak_result:
  "(case speak text0 onLine onFin v code w of
      (Resolved b, w') \<Rightarrow> b = (trim text0 \<noteq> [])
    | (Waiting i, w') \<Rightarrow> trim text0 \<noteq> [] \<and> i < length (pending w') \<and> \<not> pendingDone (pending w' ! i))
   \<and> (\<forall>i outcome w. i < length (pending w) \<and> \<not> pendingDone (pending w ! i)
          \<longrightarrow> fst (fetchSettled i outcome w) = Some True)"
  using speak_cases [of text0 onLine onFin v code w] fetchSettled_true by blast

text \<open>
  Claim C8 as stated fails: the request of \<open>speak\<close> fails, the local fallback speaks
  the text (an utterance, and no audio element), and the call resolves to true.
\<close>

theorem speak_result_counterexample:
  "(let (r, w1) = speak ''Hi.'' (Some 1) (Some 2) None None world0;
        (b, w2) = fetchSettled 0 (FetchFailed ''Failed to fetch'') w1
    in r = Waiting 0 \<and> b = Some True \<and> audios w2 = [] \<and> length (utterances w2) = 1
       \<and> length (requests w2) = 1)"
  by code_simp

text \<open>
  Claim C8, an instance: a blank text resolves to false; another text waits for the
  answer to its request and resolves to true when the service answers with an error.
\<close>

theorem speak_result_witness:
  "fst (speak ''   '' (Some 1) (Some 2) None None world0) = Resolved False
   \<and> fst (speak ''Hi.'' (Some 1) (Some 2) None None world0) = Waiting 0
   \<and> fst (fetchSettled 0 (HttpError 500 ''quota'')
            (snd (speak ''Hi.'' (Some 1) (Some 2) None None world0))) = Some True"
proof -
  let ?w = "snd (speak ''Hi.'' (Some 1) (Some 2) None None world0)"
  have a: "fst (speak ''   '' (Some 1) (Some 2) None None world0) = Resolved False"
    by code_simp
  have "(let r = speak ''Hi.'' (Some 1) (Some 2) None None world0
         in fst r = Waiting 0 \<and> 0 < length (pending (snd r)) \<and> \<not> pendingDone (pending (snd r) ! 0))"
    by code_simp
  then have b: "fst (speak ''Hi.'' (Some 1) (Some 2) None None world0) = Waiting 0"
    and h: "0 < length (pending ?w) \<and> \<not> pendingDone (pending ?w ! 0)"
    by (simp_all add: Let_def)
  from speak_result [of "''Hi.''" "Some 1" "Some 2" None None world0]
  have "\<forall>i outcome w. i < length (pending w) \<and> \<not> pendingDone (pending w ! i)
          \<longrightarrow> fst (fetchSettled i outcome w) = Some True" by blast
  with h have "fst (fetchSettled 0 (HttpError 500 ''quota'') ?w) = Some True" by blast
  with a b show ?thesis by blast
qed

section \<open>The estimate of the duration\<close>

text \<open>The punctuation marks of a text: the characters that \<open>/[,.;:?!]/g\<close> matches.\<close>

definition punctuationMarks :: "string \<Rightarrow> nat" where
  "punctuationMarks s = length (filter (\<lambda>c. c \<in> set '',.;:?!'') s)"

text \<open>
  The runs of whitespace of a text, and its words (the runs of other characters); the
  flag tells whether the character before belongs to such a run.
\<close>

fun spaceRuns :: "bool \<Rightarrow> string \<Rightarrow> nat" where
  "spaceRuns b [] = 0"
| "spaceRuns b (c # cs) = (if isSpace c \<and> \<not> b then 1 else 0) + spaceRuns (isSpace c) cs"

fun wordsIn :: "bool \<Rightarrow> string \<Rightarrow> nat" where
  "wordsIn b [] = 0"
| "wordsIn b (c # cs) = (if \<not> isSpace c \<and> \<not> b then 1 else 0) + wordsIn (\<not> isSpace c) cs"

lemma execAll_class:
  "execAll (RCls P) p s = map (\<lambda>c. ([c], [])) (filter P s)"
proof (induction s arbitrary: p)
  case Nil
  show ?case by (subst execAll.simps) (simp add: matchHere_def)
next
  case (Cons x xs)
  show ?case by (subst execAll.simps) (simp add: matchHere_def Cons)
qed

lemma pauseCount_marks: "pauseCount s = punctuationMarks s"
  by (simp add: pauseCount_def punctuationMarks_def execAll_class)

lemma repSplits_last:
  "repSplits P p s \<noteq> [] \<and> snd (last (repSplits P p s)) = dropWhile P s
   \<and> length (repSplits P p s) = Suc (length (takeWhile P s))"
  by (induction s arbitrary: p) auto

lemma matchHere_rep1:
  "matchHere (RRep P (Suc 0)) p s
     = (case s of [] \<Rightarrow> None
        | x # xs \<Rightarrow> if P x then Some (fst (last (repSplits P p s)), dropWhile P xs, []) else None)"
proof (cases s)
  case Nil
  then show ?thesis by (simp add: matchHere_def)
next
  case (Cons x xs)
  show ?thesis
  proof (cases "P x")
    case False
    with Cons show ?thesis by (simp add: matchHere_def)
  next
    case True
    define l where "l = repSplits P (Some x) xs"
    have l: "l \<noteq> []" "snd (last l) = dropWhile P xs"
      using repSplits_last [of P "Some x" xs] by (simp_all add: l_def)
    have le: "length (dropWhile P xs) \<le> length xs" by (rule length_dropWhile_le)
    obtain a where a: "last l = (a, dropWhile P xs)"
      using l(2) by (cases "last l") simp
    from l(1) have "rev l = rev (butlast l @ [last l])" by simp
    also have "\<dots> = last l # rev (butlast l)" by (simp only: rev_append rev.simps append.simps)
    finally have revl: "rev l = (a, dropWhile P xs) # rev (butlast l)" by (simp only: a)
    have "rmatch (RRep P (Suc 0)) (p, x # xs, []) = map (\<lambda>(p', s'). (p', s', [])) (rev l)"
      using True by (simp add: l_def)
    also have "\<dots> = (a, dropWhile P xs, []) # map (\<lambda>(p', s'). (p', s', [])) (rev (butlast l))"
      unfolding revl by simp
    finally have rm: "rmatch (RRep P (Suc 0)) (p, x # xs, [])
                      = (a, dropWhile P xs, []) # map (\<lambda>(p', s'). (p', s', [])) (rev (butlast l))" .
    have lst: "last (repSplits P p (x # xs)) = last l"
      using True l(1) by (simp add: l_def)
    have "matchHere (RRep P (Suc 0)) p (x # xs) = Some (a, dropWhile P xs, [])"
      unfolding matchHere_def rm using le by simp
    with True Cons lst a show ?thesis by simp
  qed
qed

lemma spaceRuns_skip: "spaceRuns True s = spaceRuns False (dropWhile isSpace s)"
proof (induction s)
  case Nil
  show ?case by simp
next
  case (Cons x xs)
  show ?case
  proof (cases "isSpace x")
    case True
    with Cons show ?thesis by simp
  next
    case False
    then show ?thesis by simp
  qed
qed

lemma splitGo_spaces:
  "length (splitGo (RRep isSpace (Suc 0)) p s acc) = Suc (spaceRuns False s)"
proof (induction s arbitrary: p acc rule: length_induct)
  case (1 s)
  show ?case
  proof (cases s)
    case Nil
    then show ?thesis by (subst splitGo.simps) (simp add: matchHere_rep1)
  next
    case (Cons x xs)
    show ?thesis
    proof (cases "isSpace x")
      case True
      have "length (dropWhile isSpace xs) < length s"
        using length_dropWhile_le [of isSpace xs] Cons by simp
      with 1 have "length (splitGo (RRep isSpace (Suc 0)) q (dropWhile isSpace xs) [])
                     = Suc (spaceRuns False (dropWhile isSpace xs))" for q
        by blast
      with True Cons show ?thesis
        by (subst splitGo.simps) (simp add: matchHere_rep1 spaceRuns_skip)
    next
      case False
      from 1 Cons have "length (splitGo (RRep isSpace (Suc 0)) (Some x) xs (x # acc)) = Suc (spaceRuns False xs)"
        by simp
      with False Cons show ?thesis
        by (subst splitGo.simps) (simp add: matchHere_rep1)
    qed
  qed
qed

lemma wordCount_runs: "wordCount s = Suc (spaceRuns False s)"
  by (simp add: wordCount_def splitRx_def splitGo_spaces)

lemma runs_words:
  "(if isSpace x then 1 else 0) + spaceRuns (isSpace x) s + 1
     = (if isSpace x then 0 else 1) + wordsIn (\<not> isSpace x) s
       + (if isSpace x then 1 else 0) + (if isSpace (last (x # s)) then 1 else (0::nat))"
proof (induction s arbitrary: x)
  case Nil
  show ?case by simp
next
  case (Cons y ys)
  from Cons [of y] show ?case by (auto split: if_splits)
qed

lemma wordCount_words:
  "wordCount s = wordsIn False s + (if s = [] \<or> isSpace (hd s) then 1 else 0)
                 + (if s \<noteq> [] \<and> isSpace (last s) then 1 else 0)"
proof (cases s)
  case Nil
  then show ?thesis by (simp add: wordCount_runs)
next
  case (Cons x xs)
  from runs_words [of x xs] Cons show ?thesis
    by (auto simp: wordCount_runs split: if_splits)
qed

text \<open>
  Claim C9. The estimated duration of the speech of the local fallback, in seconds, is
  the word count divided by (2.5 words per second divided by the rate multiplier), plus
  250 ms for each of the punctuation marks \<open>, . ; : ? !\<close> of the clean text. The word
  count is the number of pieces \<open>split(/\s+/)\<close> gives: the number of words of the text,
  and one more for an empty text or whitespace at its start, and one more for whitespace
  at its end.
\<close>

theorem duration_estimate:
  assumes "rate \<noteq> 0"
  shows "totalDurationMs cleanText rate / 1000
           = of_nat (wordCount cleanText) / ((5 / 2) / rate)
             + of_nat (punctuationMarks cleanText) * (250 / 1000)
         \<and> wordCount cleanText
           = wordsIn False cleanText
             + (if cleanText = [] \<or> isSpace (hd cleanText) then 1 else 0)
             + (if cleanText \<noteq> [] \<and> isSpace (last cleanText) then 1 else 0)"
proof -
  have "totalDurationMs cleanText rate / 1000
           = of_nat (wordCount cleanText) / ((5 / 2) / rate)
             + of_nat (punctuationMarks cleanText) * (250 / 1000)"
    using assms by (simp add: totalDurationMs_def Let_def pauseCount_marks field_simps)
  with wordCount_words [of cleanText] show ?thesis by blast
qed

text \<open>
  Claim C9, an instance: three words and two marks at the rate of the utterance, 0.9;
  the estimate is 1.58 seconds.
\<close>

theorem duration_estimate_witness:
  "utteranceRate \<noteq> 0
   \<and> wordCount ''See line 2, please.'' = 4
   \<and> punctuationMarks ''See line 2, please.'' = 2
   \<and> totalDurationMs ''See line 2, please.'' utteranceRate / 1000 = 4 / ((5 / 2) / (9 / 10)) + 2 * (250 / 1000)
   \<and> totalDurationMs ''See line 2, please.'' utteranceRate = 1940"
proof -
  have r: "utteranceRate \<noteq> 0" by (simp add: utteranceRate_def)
  have w: "wordCount ''See line 2, please.'' = 4" by code_simp
  have m: "punctuationMarks ''See line 2, please.'' = 2" by code_simp
  from duration_estimate [OF r, of "''See line 2, please.''"] w m
  have d: "totalDurationMs ''See line 2, please.'' utteranceRate / 1000
           = 4 / ((5 / 2) / (9 / 10)) + 2 * (250 / 1000)"
    by (simp add: utteranceRate_def)
  then have "totalDurationMs ''See line 2, please.'' utteranceRate = 1940" by simp
  with r w m d show ?thesis by blast
qed

end
